theory Spec2Isabelle
  imports Complex_Main "HOL-Library.Multiset"
begin

section \<open>The conveyance routing scheduler of SWMM5 (routing.js)\<close>

text \<open>
  The theory embeds \<^verbatim>\<open>src/routing.js\<close>: the four entry points
  \<^verbatim>\<open>routing_open\<close>, \<^verbatim>\<open>routing_close\<close>, \<^verbatim>\<open>routing_getRoutingStep\<close> and
  \<^verbatim>\<open>routing_execute\<close>, the seven inflow procedures, \<^verbatim>\<open>inflowHasChanged\<close>, the
  three loss and outflow procedures and \<^verbatim>\<open>sortEvents\<close>.

  Conventions.
  \<^item> A JavaScript number is a \<open>real\<close>. Rounding is not modelled. Where the source would
    go on computing with \<^verbatim>\<open>NaN\<close> or an infinity (a division by zero), the model stops
    with the result \<open>NonFinite\<close>.
  \<^item> A \<^verbatim>\<open>ReferenceError\<close> (reading an undeclared identifier) and a \<^verbatim>\<open>TypeError\<close>
    (reading a property of \<^verbatim>\<open>undefined\<close>, as in \<^verbatim>\<open>Node[j].x\<close> with \<^verbatim>\<open>j\<close> outside the
    array) are results \<open>Inl e\<close> of the functions that can raise them.
  \<^item> The global arrays are lists, and \<^verbatim>\<open>Nobjects[X]\<close> is the length of its array,
    read when a loop is entered.
  \<^item> The array \<^verbatim>\<open>swmm_Event\<close> and the count \<^verbatim>\<open>NumEvents\<close> are two globals that
    routing.js reads and that are set up outside it. The model keeps the events,
    the entries at the indices \<open>0\<close> to \<^verbatim>\<open>NumEvents - 1\<close>, in the list \<open>swmm_Event\<close>, so
    that \<^verbatim>\<open>NumEvents\<close> is its length. What the array holds from the index
    \<^verbatim>\<open>NumEvents\<close> on is not fixed by routing.js and is a parameter of the model, the
    list \<open>swmm_Event_rest\<close>: it is empty when the array ends with its last event, and
    holds one entry when the array was given a closing entry behind the last event.
    \<^verbatim>\<open>swmm_Event[k]\<close> is entry \<open>k\<close> of \<open>swmm_Event @ swmm_Event_rest\<close>.
  \<^item> The globals are the fields of the record \<open>sim\<close>. The functions of other modules
    that routing.js calls are the fields of the record \<open>env\<close>: a lookup returns a
    value; a function that changes the project's objects returns the new objects
    (the sub-record \<open>objects\<close>), which is all it can change; every call of a
    function with an effect is appended to the field \<open>trace\<close>, which only the model
    writes. The calls to the mass balance ledger and to the statistics are entries
    of the trace and nothing else.
\<close>

subsection \<open>Enumerations and records\<close>

datatype error = ReferenceError | TypeError | NonFinite

datatype node_type = JUNCTION | OUTFALL | STORAGE | DIVIDER

datatype link_type = CONDUIT | PUMP | ORIFICE | WEIR | OUTLET

datatype inflow_type =
  EXTERNAL_INFLOW | DRY_WEATHER_INFLOW | WET_WEATHER_INFLOW | GROUNDWATER_INFLOW
  | RDII_INFLOW | FLOW_INFLOW | CONCEN_INFLOW | MASS_INFLOW

datatype file_mode = NO_FILE | SCRATCH_FILE | USE_FILE | SAVE_FILE

text \<open>
  An external inflow record: \<^verbatim>\<open>type\<close> and \<^verbatim>\<open>param\<close> are read by routing.js; the
  field \<open>ext_series\<close> stands for the time series and pattern fields that only
  \<^verbatim>\<open>inflow_getExtInflow\<close> reads. The \<^verbatim>\<open>next\<close> pointer is the tail of the list.
\<close>

record ext_inflow =
  ext_param :: int
  ext_type :: inflow_type
  ext_series :: nat

record dwf_inflow =
  dwf_param :: int
  dwf_avgValue :: real

record node =
  ntype :: node_type
  nsubIndex :: int
  degree :: int
  oldLatFlow :: real
  newLatFlow :: real
  oldFlowInflow :: real
  inflow :: real
  oldNetInflow :: real
  losses :: real
  newQual :: "int \<Rightarrow> real"
  extInflow :: "ext_inflow list"
  dwfInflow :: "dwf_inflow list"

record link =
  ltype :: link_type
  lsubIndex :: int
  setting :: real
  targetSetting :: real
  timeLastSet :: real

record storage =
  evapLoss :: real
  exfilLoss :: real

record conduit =
  barrels :: real
  evapLossRate :: real
  seepLossRate :: real

record outfall =
  routeTo :: int
  vRouted :: real
  wRouted :: "int \<Rightarrow> real"

record gwater =
  gw_node :: int
  oldFlow :: real
  newFlow :: real

record subcatch =
  outNode :: int
  groundwater :: "gwater option"
  area :: real
  lidArea :: real

record pollut =
  dwfConcen :: real
  gwConcen :: real
  rdiiConcen :: real

record event =
  ev_start :: real
  ev_end :: real

text \<open>
  The calls with an effect outside routing.js, in the order they are made. The flag
  of the outflow reports is \<open>None\<close> for JavaScript's \<^verbatim>\<open>undefined\<close>.
\<close>

datatype call =
  Massbal_updateRoutingTotals real
  | Massbal_initTimeStepTotals
  | Massbal_addInflowFlow inflow_type real
  | Massbal_addInflowQual inflow_type int real
  | Massbal_addOutflowFlow real "bool option"
  | Massbal_addOutflowQual int real "bool option"
  | Massbal_addNodeLosses real real
  | Massbal_addLinkLosses real real
  | Stats_updateFlowStats real real nat bool
  | Link_setTargetSetting nat
  | Controls_evaluate real real real
  | Link_setSetting nat real
  | Node_setOldQualState nat
  | Link_setOldQualState nat
  | Infil_setInfilFactor int
  | Node_getLosses nat real
  | Link_setOldHydState nat
  | Node_setOldHydState nat
  | Node_initInflow nat real
  | Flowrout_execute "int option list option" int real
  | Qualrout_execute real
  | Node_getSystemOutflow nat
  | Treatmnt_open
  | Toposort_sortLinks
  | Iface_openRoutingFiles
  | Flowrout_init int
  | Qualrout_init
  | Iface_closeRoutingFiles
  | Flowrout_close int
  | Treatmnt_close
  | FREE "int option list option"

text \<open>The objects that the other modules may change.\<close>

record objects =
  Node :: "node list"
  Link :: "link list"
  Storage :: "storage list"
  Conduit :: "conduit list"
  Outfall :: "outfall list"
  ErrorCode :: int

text \<open>
  The globals. \<open>SortedLinks\<close>, \<open>NextEvent\<close>, \<open>BetweenEvents\<close> and \<open>NewRuleTime\<close> are the
  shared variables of routing.js itself; \<open>None\<close> is \<^verbatim>\<open>null\<close>, and an empty slot of
  \<^verbatim>\<open>new Array(n)\<close> is \<open>None\<close>. The array of the events is \<open>swmm_Event @ swmm_Event_rest\<close>:
  the events, and what the array holds behind them.
\<close>

record sim =
  obj :: objects
  Subcatch :: "subcatch list"
  Pollut :: "pollut list"
  swmm_Event :: "event list"
  swmm_Event_rest :: "event list"
  SortedLinks :: "int option list option"
  NextEvent :: nat
  BetweenEvents :: bool
  NewRuleTime :: real
  OldRoutingTime :: real
  NewRoutingTime :: real
  OldRunoffTime :: real
  NewRunoffTime :: real
  ReportTime :: real
  StartDateTime :: real
  RuleStep :: real
  RouteModel :: int
  SkipSteadyState :: bool
  SysFlowTol :: real
  LatFlowTol :: real
  IgnoreQuality :: bool
  RptFlags_flowStats :: bool
  Fhotstart1_mode :: file_mode
  Finflows_mode :: file_mode
  trace :: "call list"

text \<open>
  The functions and constants of other modules. \<open>TINY\<close> and \<open>FLOW_TOL\<close> are constants
  whose declarations are not part of the source at hand. \<open>lid_drainFlows\<close> is the
  data of the LID module (see \<open>lid_addDrainInflow\<close> below).
\<close>

record env =
  TINY :: real
  FLOW_TOL :: real
  getDateTime :: "real \<Rightarrow> real"
  inflow_getExtInflow :: "ext_inflow \<Rightarrow> real \<Rightarrow> real"
  subcatch_getWtdOutflow :: "nat \<Rightarrow> real \<Rightarrow> real"
  surfqual_getWtdWashoff :: "nat \<Rightarrow> nat \<Rightarrow> real \<Rightarrow> real"
  lid_drainFlows :: "nat \<Rightarrow> real \<Rightarrow> (int \<times> real) list"
  rdii_getNumRdiiFlows :: "real \<Rightarrow> int"
  iface_getNumIfaceNodes :: "real \<Rightarrow> int"
  iface_getIfaceNode :: "nat \<Rightarrow> int"
  iface_getIfaceFlow :: "nat \<Rightarrow> real"
  iface_getIfaceQual :: "nat \<Rightarrow> nat \<Rightarrow> real"
  flowrout_getRoutingStep :: "sim \<Rightarrow> int \<Rightarrow> real \<Rightarrow> real"
  massbal_getStepFlowError :: "sim \<Rightarrow> real"
  link_setTargetSetting :: "nat \<Rightarrow> sim \<Rightarrow> objects"
  controls_evaluate :: "real \<Rightarrow> real \<Rightarrow> real \<Rightarrow> sim \<Rightarrow> objects"
  link_setSetting :: "nat \<Rightarrow> real \<Rightarrow> sim \<Rightarrow> objects"
  node_setOldQualState :: "nat \<Rightarrow> sim \<Rightarrow> objects"
  link_setOldQualState :: "nat \<Rightarrow> sim \<Rightarrow> objects"
  infil_setInfilFactor :: "int \<Rightarrow> sim \<Rightarrow> objects"
  node_getLosses :: "nat \<Rightarrow> real \<Rightarrow> sim \<Rightarrow> real \<times> objects"
  link_setOldHydState :: "nat \<Rightarrow> sim \<Rightarrow> objects"
  node_setOldHydState :: "nat \<Rightarrow> sim \<Rightarrow> objects"
  node_initInflow :: "nat \<Rightarrow> real \<Rightarrow> sim \<Rightarrow> objects"
  flowrout_execute :: "int option list option \<Rightarrow> int \<Rightarrow> real \<Rightarrow> sim \<Rightarrow> nat \<times> objects"
  qualrout_execute :: "real \<Rightarrow> sim \<Rightarrow> objects"
  node_getSystemOutflow :: "nat \<Rightarrow> sim \<Rightarrow> real \<times> objects"
  treatmnt_open :: "sim \<Rightarrow> bool \<times> objects"
  toposort_sortLinks :: "int option list \<Rightarrow> sim \<Rightarrow> int option list \<times> objects"
  iface_openRoutingFiles :: "sim \<Rightarrow> objects"
  flowrout_init :: "int \<Rightarrow> sim \<Rightarrow> objects"
  qualrout_init :: "sim \<Rightarrow> objects"
  iface_closeRoutingFiles :: "sim \<Rightarrow> objects"
  flowrout_close :: "int \<Rightarrow> sim \<Rightarrow> objects"
  treatmnt_close :: "sim \<Rightarrow> objects"

abbreviation Nobjects_NODE :: "sim \<Rightarrow> nat" where
  "Nobjects_NODE s \<equiv> length (Node (obj s))"

abbreviation Nobjects_LINK :: "sim \<Rightarrow> nat" where
  "Nobjects_LINK s \<equiv> length (Link (obj s))"

abbreviation Nobjects_SUBCATCH :: "sim \<Rightarrow> nat" where
  "Nobjects_SUBCATCH s \<equiv> length (Subcatch s)"

abbreviation Nobjects_POLLUT :: "sim \<Rightarrow> nat" where
  "Nobjects_POLLUT s \<equiv> length (Pollut s)"

text \<open>
  \<^verbatim>\<open>NumEvents\<close> counts the events, the entries of the array below the index
  \<^verbatim>\<open>NumEvents\<close>, which the list \<open>swmm_Event\<close> holds; the length of the array itself is
  \<open>NumEvents s + length (swmm_Event_rest s)\<close>.
\<close>

abbreviation NumEvents :: "sim \<Rightarrow> nat" where
  "NumEvents s \<equiv> length (swmm_Event s)"

definition SECperDAY :: real where
  "SECperDAY = 86400"

subsection \<open>Sequencing, loops, array access and calls\<close>

definition thenE :: "'e + 'a \<Rightarrow> ('a \<Rightarrow> 'e + 'b) \<Rightarrow> 'e + 'b" where
  "thenE m f = (case m of Inl e \<Rightarrow> Inl e | Inr x \<Rightarrow> f x)"

text \<open>\<^verbatim>\<open>for (j = 0; j < n; j++) body\<close> is \<open>forS [0..<n] body\<close>, or \<open>forE\<close> when the body can raise.\<close>

fun forS :: "nat list \<Rightarrow> (nat \<Rightarrow> 's \<Rightarrow> 's) \<Rightarrow> 's \<Rightarrow> 's" where
  "forS [] body s = s"
| "forS (j # js) body s = forS js body (body j s)"

fun forE :: "nat list \<Rightarrow> (nat \<Rightarrow> 's \<Rightarrow> 'e + 's) \<Rightarrow> 's \<Rightarrow> 'e + 's" where
  "forE [] body s = Inr s"
| "forE (j # js) body s = (case body j s of Inl e \<Rightarrow> Inl e | Inr s' \<Rightarrow> forE js body s')"

text \<open>\<^verbatim>\<open>xs[k].field\<close>: a \<^verbatim>\<open>TypeError\<close> when \<^verbatim>\<open>xs[k]\<close> is \<^verbatim>\<open>undefined\<close>.\<close>

definition lookup :: "'a list \<Rightarrow> int \<Rightarrow> error + 'a" where
  "lookup xs k = (if 0 \<le> k \<and> k < int (length xs) then Inr (xs ! nat k) else Inl TypeError)"

definition tell :: "call \<Rightarrow> sim \<Rightarrow> sim" where
  "tell c s = s\<lparr>trace := trace s @ [c]\<rparr>"

definition invoke :: "call \<Rightarrow> (sim \<Rightarrow> objects) \<Rightarrow> sim \<Rightarrow> sim" where
  "invoke c f s = s\<lparr>obj := f s, trace := trace s @ [c]\<rparr>"

definition invoke_val :: "call \<Rightarrow> (sim \<Rightarrow> 'a \<times> objects) \<Rightarrow> sim \<Rightarrow> 'a \<times> sim" where
  "invoke_val c f s = (fst (f s), s\<lparr>obj := snd (f s), trace := trace s @ [c]\<rparr>)"

definition upd_Node :: "nat \<Rightarrow> (node \<Rightarrow> node) \<Rightarrow> sim \<Rightarrow> sim" where
  "upd_Node j f s = s\<lparr>obj := (obj s)\<lparr>Node := (Node (obj s))[j := f (Node (obj s) ! j)]\<rparr>\<rparr>"

text \<open>\<^verbatim>\<open>Node[j].newLatFlow += q\<close> and \<^verbatim>\<open>Node[j].newQual[p] += w\<close>.\<close>

definition add_newLatFlow :: "nat \<Rightarrow> real \<Rightarrow> sim \<Rightarrow> sim" where
  "add_newLatFlow j q = upd_Node j (\<lambda>n. n\<lparr>newLatFlow := newLatFlow n + q\<rparr>)"

definition add_newQual :: "nat \<Rightarrow> int \<Rightarrow> real \<Rightarrow> sim \<Rightarrow> sim" where
  "add_newQual j p w = upd_Node j (\<lambda>n. n\<lparr>newQual := (newQual n)(p := newQual n p + w)\<rparr>)"

subsection \<open>sortEvents\<close>

text \<open>The body of the inner loop of the exchange sort: swap entries \<open>i\<close> and \<open>j\<close>.\<close>

definition exchange_step :: "nat \<Rightarrow> event list \<Rightarrow> nat \<Rightarrow> event list" where
  "exchange_step i ev j =
     (if ev_start (ev ! i) > ev_start (ev ! j) then ev[j := ev ! i, i := ev ! j] else ev)"

definition sort_pass :: "nat \<Rightarrow> event list \<Rightarrow> nat \<Rightarrow> event list" where
  "sort_pass n ev i = foldl (exchange_step i) ev [Suc i..<n]"

definition exchange_sort :: "nat \<Rightarrow> event list \<Rightarrow> event list" where
  "exchange_sort n ev = foldl (sort_pass n) ev [0..<n - 1]"

text \<open>The body of the second loop: clip the end of event \<open>i\<close> to the start of event \<open>i + 1\<close>.\<close>

definition clip_step :: "event list \<Rightarrow> nat \<Rightarrow> event list" where
  "clip_step ev i =
     (if ev_end (ev ! i) > ev_start (ev ! Suc i)
      then ev[i := (ev ! i)\<lparr>ev_end := ev_start (ev ! Suc i)\<rparr>] else ev)"

definition adjust_overlaps :: "nat \<Rightarrow> event list \<Rightarrow> event list" where
  "adjust_overlaps n ev = foldl clip_step ev [0..<n - 1]"

definition sortEvents :: "sim \<Rightarrow> sim" where
  "sortEvents s =
     s\<lparr>swmm_Event := adjust_overlaps (NumEvents s) (exchange_sort (NumEvents s) (swmm_Event s))\<rparr>"


subsection \<open>routing_open and routing_close\<close>

text \<open>
  \<^verbatim>\<open>if ( !SortedLinks )\<close> after \<^verbatim>\<open>new Array(n)\<close> never holds (an array is truthy), so
  that branch is left out. \<^verbatim>\<open>toposort_sortLinks\<close> fills the array it is given.
\<close>

definition routing_open :: "env \<Rightarrow> sim \<Rightarrow> int \<times> sim" where
  "routing_open ext s0 =
     (let (ok, s1) = invoke_val Treatmnt_open (treatmnt_open ext) s0 in
      if \<not> ok then (ErrorCode (obj s1), s1)
      else
        let s2 = s1\<lparr>SortedLinks := None\<rparr>;
            s3 = (if 0 < Nobjects_LINK s2
                  then (let arr = replicate (Nobjects_LINK s2) None;
                            (sorted, s) = invoke_val Toposort_sortLinks (toposort_sortLinks ext arr)
                                            (s2\<lparr>SortedLinks := Some arr\<rparr>)
                        in s\<lparr>SortedLinks := Some sorted\<rparr>)
                  else s2)
        in if 0 < Nobjects_LINK s2 \<and> ErrorCode (obj s3) \<noteq> 0 then (ErrorCode (obj s3), s3)
           else
             let s4 = invoke Iface_openRoutingFiles (iface_openRoutingFiles ext) s3;
                 s5 = invoke (Flowrout_init (RouteModel s4)) (flowrout_init ext (RouteModel s4)) s4;
                 s6 = (if Fhotstart1_mode s5 = NO_FILE
                       then invoke Qualrout_init (qualrout_init ext) s5 else s5);
                 s7 = (if 0 < NumEvents s6 then sortEvents s6 else s6);
                 s8 = s7\<lparr>NextEvent := 0, BetweenEvents := (0 < NumEvents s7), NewRuleTime := 0\<rparr>
             in (ErrorCode (obj s8), s8))"

definition routing_close :: "env \<Rightarrow> int \<Rightarrow> sim \<Rightarrow> sim" where
  "routing_close ext routingModel s0 =
     (let s1 = invoke Iface_closeRoutingFiles (iface_closeRoutingFiles ext) s0;
          s2 = invoke (Flowrout_close routingModel) (flowrout_close ext routingModel) s1;
          s3 = invoke Treatmnt_close (treatmnt_close ext) s2
      in tell (FREE (SortedLinks s3)) s3)"

subsection \<open>routing_getRoutingStep\<close>

text \<open>
  The block for the time between two events either returns \<open>fixedStep\<close> at once
  (\<open>Return\<close>) or leaves a candidate in \<open>routingStep\<close> (\<open>Candidate\<close>, \<open>0\<close> when it found
  none). \<^verbatim>\<open>swmm_Event[NextEvent].start\<close> is read in the first test only when
  \<^verbatim>\<open>date2 > date1\<close> holds, and in the other branch always.
\<close>

datatype step_choice = Return real | Candidate real

definition between_events_step :: "env \<Rightarrow> real \<Rightarrow> sim \<Rightarrow> error + step_choice" where
  "between_events_step ext fixedStep s =
     (let nextTime = min (NewRunoffTime s) (ReportTime s);
          date1 = getDateTime ext (NewRoutingTime s);
          date2 = getDateTime ext nextTime;
          otherwise =
            thenE (lookup (swmm_Event s @ swmm_Event_rest s) (int (NextEvent s)))
              (\<lambda>e. if getDateTime ext (NewRoutingTime s + 1000 * fixedStep) < ev_start e
                    then Inr (Return fixedStep) else Inr (Candidate 0))
      in if date2 > date1
         then thenE (lookup (swmm_Event s @ swmm_Event_rest s) (int (NextEvent s)))
                (\<lambda>e. if date2 < ev_start e
                      then Inr (Candidate ((nextTime - NewRoutingTime s) / 1000))
                      else otherwise)
         else otherwise)"

definition rule_step_clip :: "real \<Rightarrow> sim \<Rightarrow> real" where
  "rule_step_clip routingStep s =
     (if RuleStep s > 0
      then (let nextRuleTime = NewRuleTime s + 1000 * RuleStep s;
                nextRoutingTime = NewRoutingTime s + 1000 * routingStep
            in if nextRoutingTime \<ge> nextRuleTime
               then (nextRuleTime - NewRoutingTime s) / 1000 else routingStep)
      else routingStep)"

definition routing_getRoutingStep :: "env \<Rightarrow> int \<Rightarrow> real \<Rightarrow> sim \<Rightarrow> error + real" where
  "routing_getRoutingStep ext routingModel fixedStep s =
     (if Nobjects_LINK s = 0 then Inr fixedStep
      else
        thenE (if 0 < NumEvents s \<and> BetweenEvents s
               then between_events_step ext fixedStep s else Inr (Candidate 0))
          (\<lambda>c. case c of
                  Return r \<Rightarrow> Inr r
                | Candidate r \<Rightarrow>
                    Inr (rule_step_clip
                           (if r = 0 then flowrout_getRoutingStep ext s routingModel fixedStep
                            else r) s)))"

subsection \<open>The inflow procedures\<close>

text \<open>addExternalInflows. The first loop over the list returns the value of the first flow record.\<close>

fun ext_flow_lookup :: "env \<Rightarrow> real \<Rightarrow> ext_inflow list \<Rightarrow> real" where
  "ext_flow_lookup ext currentDate [] = 0"
| "ext_flow_lookup ext currentDate (r # rs) =
     (if ext_type r = FLOW_INFLOW then inflow_getExtInflow ext r currentDate
      else ext_flow_lookup ext currentDate rs)"

fun ext_qual_loads :: "env \<Rightarrow> real \<Rightarrow> nat \<Rightarrow> real \<Rightarrow> ext_inflow list \<Rightarrow> sim \<Rightarrow> sim" where
  "ext_qual_loads ext currentDate j q [] s = s"
| "ext_qual_loads ext currentDate j q (r # rs) s =
     ext_qual_loads ext currentDate j q rs
       (if ext_type r \<noteq> FLOW_INFLOW
        then (let p = ext_param r;
                  w = inflow_getExtInflow ext r currentDate;
                  w = (if ext_type r = CONCEN_INFLOW then w * q else w)
              in tell (Massbal_addInflowQual EXTERNAL_INFLOW p w) (add_newQual j p w s))
        else s)"

definition addExternalInflows_node :: "env \<Rightarrow> real \<Rightarrow> nat \<Rightarrow> sim \<Rightarrow> sim" where
  "addExternalInflows_node ext currentDate j s =
     (if extInflow (Node (obj s) ! j) = [] then s
      else
        let q = ext_flow_lookup ext currentDate (extInflow (Node (obj s) ! j));
            q = (if \<bar>q\<bar> < FLOW_TOL ext then 0 else q);
            s1 = tell (Massbal_addInflowFlow EXTERNAL_INFLOW q) (add_newLatFlow j q s);
            q = (if ntype (Node (obj s1) ! j) = OUTFALL \<and> oldNetInflow (Node (obj s1) ! j) < 0
                 then q - oldNetInflow (Node (obj s1) ! j) else q)
        in ext_qual_loads ext currentDate j q (extInflow (Node (obj s1) ! j)) s1)"

definition addExternalInflows :: "env \<Rightarrow> real \<Rightarrow> sim \<Rightarrow> sim" where
  "addExternalInflows ext currentDate s =
     forS [0..<Nobjects_NODE s] (addExternalInflows_node ext currentDate) s"

text \<open>
  addDryWeatherInflows. The argument \<^verbatim>\<open>inObj\<close> of both calls of
  \<^verbatim>\<open>inflow_getDwfInflow\<close> is an identifier that no file declares: evaluating it raises
  a \<^verbatim>\<open>ReferenceError\<close> before the call is made, so the month, day and hour computed
  at the top of the function are never used.
\<close>

fun dwf_flow_lookup :: "dwf_inflow list \<Rightarrow> error + real" where
  "dwf_flow_lookup [] = Inr 0"
| "dwf_flow_lookup (r # rs) =
     (if dwf_param r < 0 then Inl ReferenceError else dwf_flow_lookup rs)"

definition dwf_default_load :: "nat \<Rightarrow> real \<Rightarrow> nat \<Rightarrow> sim \<Rightarrow> sim" where
  "dwf_default_load j q p s =
     (if dwfConcen (Pollut s ! p) > 0
      then (let w = q * dwfConcen (Pollut s ! p)
            in tell (Massbal_addInflowQual DRY_WEATHER_INFLOW (int p) w) (add_newQual j (int p) w s))
      else s)"

fun dwf_qual_loads :: "dwf_inflow list \<Rightarrow> sim \<Rightarrow> error + sim" where
  "dwf_qual_loads [] s = Inr s"
| "dwf_qual_loads (r # rs) s =
     (if dwf_param r \<ge> 0 then Inl ReferenceError else dwf_qual_loads rs s)"

definition addDryWeatherInflows_node :: "env \<Rightarrow> nat \<Rightarrow> sim \<Rightarrow> error + sim" where
  "addDryWeatherInflows_node ext j s =
     (if dwfInflow (Node (obj s) ! j) = [] then Inr s
      else
        thenE (dwf_flow_lookup (dwfInflow (Node (obj s) ! j)))
          (\<lambda>q. let q = (if \<bar>q\<bar> < FLOW_TOL ext then 0 else q);
                   s1 = tell (Massbal_addInflowFlow DRY_WEATHER_INFLOW q) (add_newLatFlow j q s)
               in if q \<le> 0 then Inr s1
                  else dwf_qual_loads (dwfInflow (Node (obj s1) ! j))
                         (forS [0..<Nobjects_POLLUT s1] (dwf_default_load j q) s1)))"

definition addDryWeatherInflows :: "env \<Rightarrow> real \<Rightarrow> sim \<Rightarrow> error + sim" where
  "addDryWeatherInflows ext currentDate s =
     forE [0..<Nobjects_NODE s] (addDryWeatherInflows_node ext) s"

text \<open>
  The fraction \<open>f\<close> of the three runoff based procedures, clamped to \<open>[0, 1]\<close>. With
  equal runoff times the source divides by zero: the quotient is an infinity, which
  the clamping turns into \<open>1\<close> or \<open>0\<close>, or it is \<^verbatim>\<open>NaN\<close>.
\<close>

definition runoff_fraction :: "real \<Rightarrow> sim \<Rightarrow> error + real" where
  "runoff_fraction routingTime s =
     (if NewRunoffTime s - OldRunoffTime s = 0
      then (if routingTime - OldRunoffTime s > 0 then Inr 1
            else if routingTime - OldRunoffTime s < 0 then Inr 0
            else Inl NonFinite)
      else
        let f = (routingTime - OldRunoffTime s) / (NewRunoffTime s - OldRunoffTime s);
            f = (if f < 0 then 0 else f);
            f = (if f > 1 then 1 else f)
        in Inr f)"

definition wet_weather_load :: "env \<Rightarrow> nat \<Rightarrow> real \<Rightarrow> nat \<Rightarrow> nat \<Rightarrow> sim \<Rightarrow> sim" where
  "wet_weather_load ext i f j p s =
     (let w = surfqual_getWtdWashoff ext i p f
      in tell (Massbal_addInflowQual WET_WEATHER_INFLOW (int p) w) (add_newQual j (int p) w s))"

definition addWetWeatherInflows_subcatch :: "env \<Rightarrow> real \<Rightarrow> nat \<Rightarrow> sim \<Rightarrow> error + sim" where
  "addWetWeatherInflows_subcatch ext f i s =
     (let j = outNode (Subcatch s ! i) in
      if j \<ge> 0
      then (let q = subcatch_getWtdOutflow ext i f in
            if nat j < Nobjects_NODE s
            then (let s1 = tell (Massbal_addInflowFlow WET_WEATHER_INFLOW q)
                             (add_newLatFlow (nat j) q s)
                  in Inr (forS [0..<Nobjects_POLLUT s1] (wet_weather_load ext i f (nat j)) s1))
            else Inl TypeError)
      else Inr s)"

definition addWetWeatherInflows :: "env \<Rightarrow> real \<Rightarrow> sim \<Rightarrow> error + sim" where
  "addWetWeatherInflows ext routingTime s =
     (if Nobjects_SUBCATCH s = 0 then Inr s
      else thenE (runoff_fraction routingTime s)
             (\<lambda>f. forE [0..<Nobjects_SUBCATCH s] (addWetWeatherInflows_subcatch ext f) s))"

definition groundwater_load :: "nat \<Rightarrow> real \<Rightarrow> nat \<Rightarrow> sim \<Rightarrow> sim" where
  "groundwater_load j q p s =
     (let w = q * gwConcen (Pollut s ! p)
      in tell (Massbal_addInflowQual GROUNDWATER_INFLOW (int p) w) (add_newQual j (int p) w s))"

definition addGroundwaterInflows_subcatch :: "env \<Rightarrow> real \<Rightarrow> nat \<Rightarrow> sim \<Rightarrow> error + sim" where
  "addGroundwaterInflows_subcatch ext f i s =
     (case groundwater (Subcatch s ! i) of
        None \<Rightarrow> Inr s
      | Some gw \<Rightarrow>
          let j = gw_node gw in
          if j \<ge> 0
          then (let q = ((1 - f) * oldFlow gw + f * newFlow gw) * area (Subcatch s ! i) in
                if \<bar>q\<bar> < FLOW_TOL ext then Inr s
                else if nat j < Nobjects_NODE s
                then (let s1 = tell (Massbal_addInflowFlow GROUNDWATER_INFLOW q)
                                 (add_newLatFlow (nat j) q s)
                      in Inr (if q > 0
                              then forS [0..<Nobjects_POLLUT s1] (groundwater_load (nat j) q) s1
                              else s1))
                else Inl TypeError)
          else Inr s)"

definition addGroundwaterInflows :: "env \<Rightarrow> real \<Rightarrow> sim \<Rightarrow> error + sim" where
  "addGroundwaterInflows ext routingTime s =
     (if Nobjects_SUBCATCH s = 0 then Inr s
      else thenE (runoff_fraction routingTime s)
             (\<lambda>f. forE [0..<Nobjects_SUBCATCH s] (addGroundwaterInflows_subcatch ext f) s))"

text \<open>
  Modelled from the spec: \<^verbatim>\<open>lid_addDrainInflow\<close> belongs to the LID module, which is
  not part of the source at hand. The spec says of each of the seven procedures
  that it adds its flow to the owning node's \<^verbatim>\<open>newLatFlow\<close> and reports the same
  quantity to the ledger, and that the LID one is delegated entirely to the LID
  subsystem. So each drain flow \<open>(k, q)\<close> that the LID data \<open>lid_drainFlows\<close> gives for the
  subcatchment is added to node \<open>k\<close> and reported; the spec names no category, and
  the runoff category is used. The pollutant loads of the drains are not modelled.
\<close>

fun lid_addDrainInflow_flows :: "(int \<times> real) list \<Rightarrow> sim \<Rightarrow> error + sim" where
  "lid_addDrainInflow_flows [] s = Inr s"
| "lid_addDrainInflow_flows ((k, q) # rest) s =
     (if 0 \<le> k \<and> nat k < Nobjects_NODE s
      then lid_addDrainInflow_flows rest
             (tell (Massbal_addInflowFlow WET_WEATHER_INFLOW q) (add_newLatFlow (nat k) q s))
      else Inl TypeError)"

definition lid_addDrainInflow :: "env \<Rightarrow> nat \<Rightarrow> real \<Rightarrow> sim \<Rightarrow> error + sim" where
  "lid_addDrainInflow ext j f s = lid_addDrainInflow_flows (lid_drainFlows ext j f) s"

definition addLidDrainInflows :: "env \<Rightarrow> real \<Rightarrow> sim \<Rightarrow> error + sim" where
  "addLidDrainInflows ext routingTime s =
     (if Nobjects_SUBCATCH s = 0 then Inr s
      else thenE (runoff_fraction routingTime s)
             (\<lambda>f. forE [0..<Nobjects_SUBCATCH s]
                     (\<lambda>j s. if area (Subcatch s ! j) > 0 \<and> lidArea (Subcatch s ! j) > 0
                             then lid_addDrainInflow ext j f s else Inr s) s))"

text \<open>
  addRdiiInflows. \<^verbatim>\<open>rdii_getRdiiFlow(i, j, q)\<close> gets the values of \<^verbatim>\<open>j\<close> and \<^verbatim>\<open>q\<close>, which
  are \<^verbatim>\<open>undefined\<close>, and cannot assign them. So in the first round of the loop neither
  \<^verbatim>\<open>j < 0\<close> nor \<^verbatim>\<open>Math.abs(q) < FLOW_TOL\<close> holds, and \<^verbatim>\<open>Node[undefined].newLatFlow\<close>
  raises a \<^verbatim>\<open>TypeError\<close>.
\<close>

definition addRdiiInflows :: "env \<Rightarrow> real \<Rightarrow> sim \<Rightarrow> error + sim" where
  "addRdiiInflows ext currentDate s =
     (if 0 < rdii_getNumRdiiFlows ext currentDate then Inl TypeError else Inr s)"

definition iface_load :: "env \<Rightarrow> nat \<Rightarrow> nat \<Rightarrow> real \<Rightarrow> nat \<Rightarrow> sim \<Rightarrow> sim" where
  "iface_load ext i j q p s =
     (let w = q * iface_getIfaceQual ext i p
      in tell (Massbal_addInflowQual EXTERNAL_INFLOW (int p) w) (add_newQual j (int p) w s))"

definition addIfaceInflows_node :: "env \<Rightarrow> nat \<Rightarrow> sim \<Rightarrow> error + sim" where
  "addIfaceInflows_node ext i s =
     (let j = iface_getIfaceNode ext i in
      if j < 0 then Inr s
      else
        let q = iface_getIfaceFlow ext i in
        if \<bar>q\<bar> < FLOW_TOL ext then Inr s
        else if nat j < Nobjects_NODE s
        then (let s1 = tell (Massbal_addInflowFlow EXTERNAL_INFLOW q) (add_newLatFlow (nat j) q s)
              in Inr (if q > 0
                      then forS [0..<Nobjects_POLLUT s1] (iface_load ext i (nat j) q) s1
                      else s1))
        else Inl TypeError)"

definition addIfaceInflows :: "env \<Rightarrow> real \<Rightarrow> sim \<Rightarrow> error + sim" where
  "addIfaceInflows ext currentDate s =
     (if Finflows_mode s \<noteq> USE_FILE then Inr s
      else forE [0..<nat (iface_getNumIfaceNodes ext currentDate)] (addIfaceInflows_node ext) s)"

text \<open>The seven calls of routing_execute that add the lateral inflows, in their order.\<close>

definition aggregate_inflows :: "env \<Rightarrow> real \<Rightarrow> sim \<Rightarrow> error + sim" where
  "aggregate_inflows ext currentDate s =
     thenE (addDryWeatherInflows ext currentDate (addExternalInflows ext currentDate s))
       (\<lambda>s. thenE (addWetWeatherInflows ext (OldRoutingTime s) s)
       (\<lambda>s. thenE (addGroundwaterInflows ext (OldRoutingTime s) s)
       (\<lambda>s. thenE (addLidDrainInflows ext (OldRoutingTime s) s)
       (\<lambda>s. thenE (addRdiiInflows ext currentDate s)
       (\<lambda>s. addIfaceInflows ext currentDate s)))))"

subsection \<open>inflowHasChanged\<close>

text \<open>The loop over the nodes, with its two early returns.\<close>

fun inflowHasChanged_nodes :: "env \<Rightarrow> real \<Rightarrow> node list \<Rightarrow> bool" where
  "inflowHasChanged_nodes ext tol [] = False"
| "inflowHasChanged_nodes ext tol (n # ns) =
     (let qOld = oldLatFlow n;
          qNew = newLatFlow n;
          diff = (if \<bar>qOld\<bar> > TINY ext then (qNew / qOld) - 1
                  else if \<bar>qNew\<bar> > TINY ext then 1
                  else 0)
      in if \<bar>diff\<bar> > tol then True
         else if ntype n = OUTFALL \<or> degree n = 0
         then (let qOld = oldFlowInflow n;
                   qNew = inflow n;
                   diff = (if \<bar>qOld\<bar> > TINY ext then (qNew / qOld) - 1
                           else if \<bar>qNew\<bar> > TINY ext then 1
                           else 0)
               in if \<bar>diff\<bar> > tol then True else inflowHasChanged_nodes ext tol ns)
         else inflowHasChanged_nodes ext tol ns)"

definition inflowHasChanged :: "env \<Rightarrow> sim \<Rightarrow> bool" where
  "inflowHasChanged ext s = inflowHasChanged_nodes ext (LatFlowTol s) (Node (obj s))"

text \<open>
  The test as the specification words it: the relative change of a flow, and the
  nodes that trigger.
\<close>

definition spec_relative_change :: "real \<Rightarrow> real \<Rightarrow> real \<Rightarrow> real" where
  "spec_relative_change tiny old new =
     (if \<bar>old\<bar> > tiny then new / old - 1 else if \<bar>new\<bar> > tiny then 1 else 0)"

definition spec_node_triggers :: "real \<Rightarrow> real \<Rightarrow> node \<Rightarrow> bool" where
  "spec_node_triggers tiny tol n \<longleftrightarrow>
     \<bar>spec_relative_change tiny (oldLatFlow n) (newLatFlow n)\<bar> > tol \<or>
     ((ntype n = OUTFALL \<or> degree n = 0) \<and>
      \<bar>spec_relative_change tiny (oldFlowInflow n) (inflow n)\<bar> > tol)"

subsection \<open>The loss and outflow procedures\<close>

fun storage_losses :: "storage list \<Rightarrow> node list \<Rightarrow> real \<times> real \<Rightarrow> error + real \<times> real" where
  "storage_losses st [] acc = Inr acc"
| "storage_losses st (n # ns) (evap, exfil) =
     (if ntype n = STORAGE
      then thenE (lookup st (nsubIndex n))
             (\<lambda>x. storage_losses st ns (evap + evapLoss x, exfil + exfilLoss x))
      else storage_losses st ns (evap, exfil))"

definition removeStorageLosses :: "real \<Rightarrow> sim \<Rightarrow> error + sim" where
  "removeStorageLosses tStep s =
     thenE (storage_losses (Storage (obj s)) (Node (obj s)) (0, 0))
       (\<lambda>(evap, exfil).
          if tStep = 0 then Inl NonFinite
          else Inr (tell (Massbal_addNodeLosses (evap / tStep) (exfil / tStep)) s))"

fun conduit_losses :: "conduit list \<Rightarrow> link list \<Rightarrow> real \<times> real \<Rightarrow> error + real \<times> real" where
  "conduit_losses cs [] acc = Inr acc"
| "conduit_losses cs (l # ls) (evap, seep) =
     (if ltype l = CONDUIT
      then thenE (lookup cs (lsubIndex l))
             (\<lambda>c. conduit_losses cs ls
                     (evap + evapLossRate c * barrels c, seep + seepLossRate c * barrels c))
      else conduit_losses cs ls (evap, seep))"

definition removeConduitLosses :: "sim \<Rightarrow> error + sim" where
  "removeConduitLosses s =
     thenE (conduit_losses (Conduit (obj s)) (Link (obj s)) (0, 0))
       (\<lambda>(evap, seep). Inr (tell (Massbal_addLinkLosses evap seep) s))"

text \<open>removeOutflows, first block: the volume and loads routed onward from an outfall.\<close>

definition route_outfall :: "real \<Rightarrow> nat \<Rightarrow> sim \<Rightarrow> error + sim" where
  "route_outfall tStep i s =
     thenE (lookup (Node (obj s)) (int i))
       (\<lambda>n. if ntype n = OUTFALL \<and> inflow n > 0
             then thenE (lookup (Outfall (obj s)) (nsubIndex n))
                    (\<lambda>out. if routeTo out \<ge> 0
                            then (let v = inflow n * tStep;
                                      k = nat (nsubIndex n);
                                      out1 = out\<lparr>vRouted := vRouted out + v\<rparr>;
                                      out2 = forS [0..<Nobjects_POLLUT s]
                                               (\<lambda>p x. x\<lparr>wRouted := (wRouted x)
                                                   (int p := wRouted x (int p) + newQual n (int p) * v)\<rparr>)
                                               out1
                                  in Inr (s\<lparr>obj := (obj s)\<lparr>Outfall := (Outfall (obj s))[k := out2]\<rparr>\<rparr>))
                            else Inr s)
             else Inr s)"

text \<open>
  Second block: the report of the node's system outflow \<open>q\<close>. \<^verbatim>\<open>isFlooded\<close> is passed
  to \<^verbatim>\<open>node_getSystemOutflow\<close> by value and stays \<^verbatim>\<open>undefined\<close>.
\<close>

definition report_system_outflow :: "nat \<Rightarrow> real \<Rightarrow> sim \<Rightarrow> error + sim" where
  "report_system_outflow i q s =
     (if q > 0
      then forE [0..<Nobjects_POLLUT s]
             (\<lambda>p s. thenE (lookup (Node (obj s)) (int i))
                       (\<lambda>n. Inr (tell (Massbal_addOutflowQual (int p) (q * newQual n (int p)) None) s)))
             (tell (Massbal_addOutflowFlow q None) s)
      else Inr (tell (Massbal_addInflowFlow EXTERNAL_INFLOW (- q)) s))"

text \<open>Third block: the pollutant mass that leaves with a negative lateral inflow.\<close>

definition report_lateral_loss :: "nat \<Rightarrow> sim \<Rightarrow> error + sim" where
  "report_lateral_loss i s =
     thenE (lookup (Node (obj s)) (int i))
       (\<lambda>n. let q = newLatFlow n in
             if q < 0
             then forE [0..<Nobjects_POLLUT s]
                    (\<lambda>p s. thenE (lookup (Node (obj s)) (int i))
                              (\<lambda>n. Inr (tell (Massbal_addOutflowQual (int p) (- q * newQual n (int p))
                                              (Some False)) s)))
                    s
             else Inr s)"

definition removeOutflows_node :: "env \<Rightarrow> real \<Rightarrow> nat \<Rightarrow> sim \<Rightarrow> error + sim" where
  "removeOutflows_node ext tStep i s =
     thenE (route_outfall tStep i s)
       (\<lambda>s1. let (q, s2) = invoke_val (Node_getSystemOutflow i) (node_getSystemOutflow ext i) s1
              in thenE (report_system_outflow i q s2) (report_lateral_loss i))"

definition removeOutflows :: "env \<Rightarrow> real \<Rightarrow> sim \<Rightarrow> error + sim" where
  "removeOutflows ext tStep s = forE [0..<Nobjects_NODE s] (removeOutflows_node ext tStep) s"

subsection \<open>routing_execute\<close>

text \<open>
  The function is cut into its phases. First: the half step of the ledger, the target
  settings of the links and the control rules.
\<close>

definition begin_step :: "env \<Rightarrow> real \<Rightarrow> sim \<Rightarrow> sim" where
  "begin_step ext routingStep s0 =
     (let s1 = tell (Massbal_updateRoutingTotals (routingStep / 2)) s0;
          s2 = forS [0..<Nobjects_LINK s1]
                 (\<lambda>j. invoke (Link_setTargetSetting j) (link_setTargetSetting ext j)) s1;
          currentDate = getDateTime ext (NewRoutingTime s2)
      in if RuleStep s2 = 0 \<or> \<bar>NewRoutingTime s2 - NewRuleTime s2\<bar> < 1
         then invoke (Controls_evaluate currentDate (currentDate - StartDateTime s2)
                        (routingStep / SECperDAY))
                (controls_evaluate ext currentDate (currentDate - StartDateTime s2)
                   (routingStep / SECperDAY)) s2
         else s2)"

text \<open>The loop that changes each link's setting to its target; it counts the changes.\<close>

definition change_setting :: "env \<Rightarrow> real \<Rightarrow> real \<Rightarrow> nat \<Rightarrow> nat \<times> sim \<Rightarrow> error + nat \<times> sim" where
  "change_setting ext routingStep currentDate j cs =
     (let (actionCount, s) = cs in
      thenE (lookup (Link (obj s)) (int j))
        (\<lambda>l. if targetSetting l \<noteq> setting l
              then (let s1 = (if targetSetting l * setting l = 0
                              then s\<lparr>obj := (obj s)\<lparr>Link := (Link (obj s))
                                      [j := l\<lparr>timeLastSet := currentDate\<rparr>]\<rparr>\<rparr>
                              else s)
                    in Inr (Suc actionCount,
                            invoke (Link_setSetting j routingStep)
                              (link_setSetting ext j routingStep) s1))
              else Inr (actionCount, s)))"

definition change_settings :: "env \<Rightarrow> real \<Rightarrow> real \<Rightarrow> sim \<Rightarrow> error + nat \<times> sim" where
  "change_settings ext routingStep currentDate s =
     forE [0..<Nobjects_LINK s] (change_setting ext routingStep currentDate) (0, s)"

definition advance_clock :: "real \<Rightarrow> sim \<Rightarrow> sim" where
  "advance_clock routingStep s =
     (let s1 = s\<lparr>OldRoutingTime := NewRoutingTime s\<rparr>;
          s2 = s1\<lparr>NewRoutingTime := NewRoutingTime s1 + 1000 * routingStep\<rparr>
      in if \<bar>NewRoutingTime s2 - (NewRuleTime s2 + 1000 * RuleStep s2)\<bar> < 1
         then s2\<lparr>NewRuleTime := NewRuleTime s2 + 1000 * RuleStep s2\<rparr> else s2)"

text \<open>
  The flow error of the previous step is sampled, the totals of the step are reset,
  the quality state and the lateral inflows are rolled over.
\<close>

definition roll_state :: "env \<Rightarrow> sim \<Rightarrow> real \<times> sim" where
  "roll_state ext s0 =
     (let stepFlowError = massbal_getStepFlowError ext s0;
          s1 = tell Massbal_initTimeStepTotals s0;
          s2 = (if 0 < Nobjects_POLLUT s1
                then (let t = forS [0..<Nobjects_NODE s1]
                                (\<lambda>j. invoke (Node_setOldQualState j) (node_setOldQualState ext j)) s1
                      in forS [0..<Nobjects_LINK t]
                           (\<lambda>j. invoke (Link_setOldQualState j) (link_setOldQualState ext j)) t)
                else s1);
          s3 = invoke (Infil_setInfilFactor (- 1)) (infil_setInfilFactor ext (- 1)) s2;
          s4 = s3\<lparr>obj := (obj s3)\<lparr>Node :=
                  map (\<lambda>n. n\<lparr>oldLatFlow := newLatFlow n, newLatFlow := 0\<rparr>) (Node (obj s3))\<rparr>\<rparr>
      in (stepFlowError, s4))"

text \<open>The bookkeeping of the routing events.\<close>

definition check_events :: "real \<Rightarrow> sim \<Rightarrow> error + sim" where
  "check_events currentDate s =
     (if 0 < NumEvents s
      then thenE (lookup (swmm_Event s @ swmm_Event_rest s) (int (NextEvent s)))
             (\<lambda>e. if currentDate > ev_end e
                   then Inr (s\<lparr>BetweenEvents := True, NextEvent := Suc (NextEvent s)\<rparr>)
                   else if currentDate \<ge> ev_start e \<and> BetweenEvents s = True
                   then Inr (s\<lparr>BetweenEvents := False\<rparr>)
                   else Inr s)
      else Inr s)"

text \<open>
  \<^verbatim>\<open>Node[j].losses = node_getLosses(j, routingStep)\<close>: the node object is the one
  that \<^verbatim>\<open>node_getLosses\<close> may have changed in place.
\<close>

definition set_node_losses :: "env \<Rightarrow> real \<Rightarrow> nat \<Rightarrow> sim \<Rightarrow> error + sim" where
  "set_node_losses ext routingStep j s =
     (if j < Nobjects_NODE s
      then (let (x, s1) = invoke_val (Node_getLosses j routingStep) (node_getLosses ext j routingStep) s
            in Inr (upd_Node j (\<lambda>n. n\<lparr>losses := x\<rparr>) s1))
      else Inl TypeError)"

text \<open>The test for a steady state; \<open>inSteadyState\<close> starts as \<open>False\<close>.\<close>

definition steady_state_test :: "env \<Rightarrow> nat \<Rightarrow> real \<Rightarrow> sim \<Rightarrow> bool" where
  "steady_state_test ext actionCount stepFlowError s =
     (if SkipSteadyState s
      then (if OldRoutingTime s = 0 \<or> actionCount > 0 \<or> \<bar>stepFlowError\<bar> > SysFlowTol s
               \<or> inflowHasChanged ext s
            then False else True)
      else False)"

text \<open>
  The two loops that replace the old hydraulic state of the links and nodes by the
  current one; they end in the state in which \<^verbatim>\<open>Nobjects[LINK] > 0\<close> is tested before
  the solver is called.
\<close>

definition old_hyd_state :: "env \<Rightarrow> real \<Rightarrow> sim \<Rightarrow> sim" where
  "old_hyd_state ext routingStep s0 =
     (let s1 = forS [0..<Nobjects_LINK s0]
                 (\<lambda>j. invoke (Link_setOldHydState j) (link_setOldHydState ext j)) s0
      in forS [0..<Nobjects_NODE s1]
           (\<lambda>j s. invoke (Node_initInflow j routingStep) (node_initInflow ext j routingStep)
                     (invoke (Node_setOldHydState j) (node_setOldHydState ext j) s)) s1)"

text \<open>The new hydraulic state; the result is \<open>stepCount\<close>, which starts as \<open>1\<close>.\<close>

definition route_flows :: "env \<Rightarrow> int \<Rightarrow> real \<Rightarrow> sim \<Rightarrow> nat \<times> sim" where
  "route_flows ext routingModel routingStep s0 =
     (let s2 = old_hyd_state ext routingStep s0
      in if 0 < Nobjects_LINK s2
         then invoke_val (Flowrout_execute (SortedLinks s2) routingModel routingStep)
                (flowrout_execute ext (SortedLinks s2) routingModel routingStep) s2
         else (1, s2))"

text \<open>The part of the step that is skipped between two events; it yields the two locals.\<close>

definition route_step :: "env \<Rightarrow> int \<Rightarrow> real \<Rightarrow> real \<Rightarrow> nat \<Rightarrow> real \<Rightarrow> sim \<Rightarrow> error + (nat \<times> bool) \<times> sim" where
  "route_step ext routingModel routingStep currentDate actionCount stepFlowError s0 =
     thenE (forE [0..<Nobjects_NODE s0] (set_node_losses ext routingStep) s0)
       (\<lambda>s1. thenE (aggregate_inflows ext currentDate s1)
       (\<lambda>s2. let inSteadyState = steady_state_test ext actionCount stepFlowError s2;
                  (stepCount, s3) = (if inSteadyState = False
                                     then route_flows ext routingModel routingStep s2
                                     else (1, s2));
                  s4 = (if 0 < Nobjects_POLLUT s3 \<and> \<not> IgnoreQuality s3
                        then invoke (Qualrout_execute routingStep) (qualrout_execute ext routingStep) s3
                        else s3)
              in thenE (removeStorageLosses routingStep s4)
                   (\<lambda>s5. thenE (removeConduitLosses s5)
                   (\<lambda>s6. thenE (removeOutflows ext routingStep s6)
                   (\<lambda>s7. Inr ((stepCount, inSteadyState), s7))))))"

definition end_step :: "env \<Rightarrow> real \<Rightarrow> nat \<Rightarrow> bool \<Rightarrow> sim \<Rightarrow> sim" where
  "end_step ext routingStep stepCount inSteadyState s0 =
     (let s1 = tell (Massbal_updateRoutingTotals (routingStep / 2)) s0
      in if RptFlags_flowStats s1 \<and> 0 < Nobjects_LINK s1
         then tell (Stats_updateFlowStats routingStep (getDateTime ext (NewRoutingTime s1))
                      stepCount inSteadyState) s1
         else s1)"

definition routing_execute :: "env \<Rightarrow> int \<Rightarrow> real \<Rightarrow> sim \<Rightarrow> error + sim" where
  "routing_execute ext routingModel routingStep s0 =
     (if ErrorCode (obj s0) \<noteq> 0 then Inr s0
      else
        let s1 = begin_step ext routingStep s0;
            currentDate = getDateTime ext (NewRoutingTime s1)
        in thenE (change_settings ext routingStep currentDate s1)
             (\<lambda>(actionCount, s2).
                let (stepFlowError, s3) = roll_state ext (advance_clock routingStep s2)
                in thenE (check_events currentDate s3)
                     (\<lambda>s4. thenE (if BetweenEvents s4 = False
                                   then route_step ext routingModel routingStep currentDate
                                          actionCount stepFlowError s4
                                   else Inr ((1, True), s4))
                     (\<lambda>((stepCount, inSteadyState), s5).
                        Inr (end_step ext routingStep stepCount inSteadyState s5)))))"

subsection \<open>Invariants of the loops of sortEvents\<close>



definition clipped_upto :: "nat \<Rightarrow> event list \<Rightarrow> event list \<Rightarrow> bool" where
  "clipped_upto k ev0 ev \<longleftrightarrow>
     length ev = length ev0 \<and>
     (\<forall>i < length ev0. ev ! i =
        (if i < k then (ev0 ! i)\<lparr>ev_end := min (ev_end (ev0 ! i)) (ev_start (ev0 ! Suc i))\<rparr>
         else ev0 ! i))"

subsection \<open>Example inputs\<close>

text \<open>
  An empty project, and collaborators that change nothing: every lookup is zero, and
  the date of an elapsed time is that time in seconds.
\<close>

definition sim0 :: sim where
  "sim0 = \<lparr>obj = \<lparr>Node = [], Link = [], Storage = [], Conduit = [], Outfall = [], ErrorCode = 0\<rparr>,
     Subcatch = [], Pollut = [], swmm_Event = [], swmm_Event_rest = [], SortedLinks = None,
     NextEvent = 0,
     BetweenEvents = False, NewRuleTime = 0, OldRoutingTime = 0, NewRoutingTime = 0,
     OldRunoffTime = 0, NewRunoffTime = 0, ReportTime = 0, StartDateTime = 0, RuleStep = 0,
     RouteModel = 0, SkipSteadyState = False, SysFlowTol = 5 / 100, LatFlowTol = 5 / 100,
     IgnoreQuality = False, RptFlags_flowStats = False, Fhotstart1_mode = NO_FILE,
     Finflows_mode = NO_FILE, trace = []\<rparr>"

definition env0 :: env where
  "env0 = \<lparr>TINY = 1 / 1000000, FLOW_TOL = 1 / 100000,
     getDateTime = (\<lambda>ms. ms / 1000),
     inflow_getExtInflow = (\<lambda>r d. 0),
     subcatch_getWtdOutflow = (\<lambda>i f. 0),
     surfqual_getWtdWashoff = (\<lambda>i p f. 0),
     lid_drainFlows = (\<lambda>j f. []),
     rdii_getNumRdiiFlows = (\<lambda>d. 0),
     iface_getNumIfaceNodes = (\<lambda>d. 0),
     iface_getIfaceNode = (\<lambda>i. 0),
     iface_getIfaceFlow = (\<lambda>i. 0),
     iface_getIfaceQual = (\<lambda>i p. 0),
     flowrout_getRoutingStep = (\<lambda>s m fixedStep. fixedStep),
     massbal_getStepFlowError = (\<lambda>s. 0),
     link_setTargetSetting = (\<lambda>j s. obj s),
     controls_evaluate = (\<lambda>d e t s. obj s),
     link_setSetting = (\<lambda>j t s. obj s),
     node_setOldQualState = (\<lambda>j s. obj s),
     link_setOldQualState = (\<lambda>j s. obj s),
     infil_setInfilFactor = (\<lambda>k s. obj s),
     node_getLosses = (\<lambda>j t s. (0, obj s)),
     link_setOldHydState = (\<lambda>j s. obj s),
     node_setOldHydState = (\<lambda>j s. obj s),
     node_initInflow = (\<lambda>j t s. obj s),
     flowrout_execute = (\<lambda>l m t s. (1, obj s)),
     qualrout_execute = (\<lambda>t s. obj s),
     node_getSystemOutflow = (\<lambda>i s. (0, obj s)),
     treatmnt_open = (\<lambda>s. (True, obj s)),
     toposort_sortLinks = (\<lambda>arr s. (arr, obj s)),
     iface_openRoutingFiles = (\<lambda>s. obj s),
     flowrout_init = (\<lambda>m s. obj s),
     qualrout_init = (\<lambda>s. obj s),
     iface_closeRoutingFiles = (\<lambda>s. obj s),
     flowrout_close = (\<lambda>m s. obj s),
     treatmnt_close = (\<lambda>s. obj s)\<rparr>"

definition node0 :: node where
  "node0 = \<lparr>ntype = JUNCTION, nsubIndex = 0, degree = 1, oldLatFlow = 0, newLatFlow = 0,
     oldFlowInflow = 0, inflow = 0, oldNetInflow = 0, losses = 0, newQual = (\<lambda>p. 0),
     extInflow = [], dwfInflow = []\<rparr>"


text \<open>
  Two nodes, a junction and an outfall: in \<open>sim_steady\<close> every new flow equals the old
  one, in \<open>sim_changed\<close> the total inflow of the outfall went from 4 to 5.
\<close>

definition sim_steady :: sim where
  "sim_steady = sim0\<lparr>obj := (obj sim0)\<lparr>Node :=
     [node0\<lparr>oldLatFlow := 2, newLatFlow := 2\<rparr>,
      node0\<lparr>ntype := OUTFALL, oldFlowInflow := 4, inflow := 4\<rparr>]\<rparr>\<rparr>"

definition sim_changed :: sim where
  "sim_changed = sim0\<lparr>obj := (obj sim0)\<lparr>Node :=
     [node0\<lparr>oldLatFlow := 2, newLatFlow := 2\<rparr>,
      node0\<lparr>ntype := OUTFALL, oldFlowInflow := 4, inflow := 5\<rparr>]\<rparr>\<rparr>"

text \<open>
  One node with dry weather records: in \<open>sim_dwf_pollutant\<close> a single record for
  pollutant 0, in \<open>sim_dwf_flow\<close> that record and the flow record.
\<close>

definition sim_dwf_pollutant :: sim where
  "sim_dwf_pollutant = sim0\<lparr>obj := (obj sim0)\<lparr>Node :=
     [node0\<lparr>dwfInflow := [\<lparr>dwf_param = 0, dwf_avgValue = 5\<rparr>]\<rparr>]\<rparr>\<rparr>"

definition sim_dwf_flow :: sim where
  "sim_dwf_flow = sim0\<lparr>obj := (obj sim0)\<lparr>Node :=
     [node0\<lparr>dwfInflow := [\<lparr>dwf_param = 0, dwf_avgValue = 5\<rparr>, \<lparr>dwf_param = - 1, dwf_avgValue = 2\<rparr>]\<rparr>]\<rparr>\<rparr>"

text \<open>A node has a dry weather flow record: one whose \<^verbatim>\<open>param\<close> is negative.\<close>

definition has_dwf_flow_record :: "node \<Rightarrow> bool" where
  "has_dwf_flow_record n \<longleftrightarrow> list_ex (\<lambda>r. dwf_param r < 0) (dwfInflow n)"

subsection \<open>The ledger and the lateral inflows\<close>

text \<open>
  The flow that a call reports to the ledger as an inflow, the sum of these flows
  over a piece of the trace, and the sum of the lateral inflows of all nodes.
\<close>

definition inflow_flow :: "call \<Rightarrow> real" where
  "inflow_flow c = (case c of Massbal_addInflowFlow t q \<Rightarrow> q | _ \<Rightarrow> 0)"

definition flows_reported :: "call list \<Rightarrow> real" where
  "flows_reported cs = sum_list (map inflow_flow cs)"

definition lat_total :: "sim \<Rightarrow> real" where
  "lat_total s = sum_list (map newLatFlow (Node (obj s)))"

text \<open>
  From \<open>s\<close> to \<open>s'\<close> the trace was extended, and the inflows reported in the extension
  add up to the growth of the lateral inflows.
\<close>

definition conserves :: "sim \<Rightarrow> sim \<Rightarrow> bool" where
  "conserves s s' \<longleftrightarrow>
     Nobjects_NODE s' = Nobjects_NODE s \<and>
     (\<exists>new. trace s' = trace s @ new \<and> flows_reported new = lat_total s' - lat_total s)"

text \<open>
  An example for the inflow procedures: node 0 has an external flow of 2 and gets a
  LID drain flow of 1, node 1 gets the runoff 3 of the subcatchment and its
  groundwater flow \<open>(1/2) * 4 = 2\<close>.
\<close>

definition env_inflows :: env where
  "env_inflows = env0\<lparr>inflow_getExtInflow := (\<lambda>r d. 2),
     subcatch_getWtdOutflow := (\<lambda>i f. 3),
     lid_drainFlows := (\<lambda>j f. [(0, 1)])\<rparr>"

definition sim_inflows :: sim where
  "sim_inflows = sim0\<lparr>obj := (obj sim0)\<lparr>Node :=
       [node0\<lparr>extInflow := [\<lparr>ext_param = - 1, ext_type = FLOW_INFLOW, ext_series = 0\<rparr>]\<rparr>,
        node0]\<rparr>,
     Subcatch := [\<lparr>outNode = 1,
                   groundwater = Some \<lparr>gw_node = 1, oldFlow = 1 / 2, newFlow = 1 / 2\<rparr>,
                   area = 4, lidArea = 1\<rparr>],
     NewRunoffTime := 1000\<rparr>"

subsection \<open>What addExternalInflows adds and reports for a node\<close>

text \<open>
  The direct external flow of a node at the current date, zero below the flow
  tolerance; the flow by which its concentration inflows are multiplied; and the
  calls to the ledger for the node, in their order.
\<close>

definition ext_direct_flow :: "env \<Rightarrow> real \<Rightarrow> node \<Rightarrow> real" where
  "ext_direct_flow ext currentDate n =
     (if extInflow n = [] then 0
      else if \<bar>ext_flow_lookup ext currentDate (extInflow n)\<bar> < FLOW_TOL ext then 0
      else ext_flow_lookup ext currentDate (extInflow n))"

definition ext_load_flow :: "env \<Rightarrow> real \<Rightarrow> node \<Rightarrow> real" where
  "ext_load_flow ext currentDate n =
     (if ntype n = OUTFALL \<and> oldNetInflow n < 0
      then ext_direct_flow ext currentDate n - oldNetInflow n
      else ext_direct_flow ext currentDate n)"

definition ext_load_report :: "env \<Rightarrow> real \<Rightarrow> real \<Rightarrow> ext_inflow \<Rightarrow> call" where
  "ext_load_report ext currentDate q r =
     Massbal_addInflowQual EXTERNAL_INFLOW (ext_param r)
       (if ext_type r = CONCEN_INFLOW then inflow_getExtInflow ext r currentDate * q
        else inflow_getExtInflow ext r currentDate)"

definition ext_node_reports :: "env \<Rightarrow> real \<Rightarrow> node \<Rightarrow> call list" where
  "ext_node_reports ext currentDate n =
     (if extInflow n = [] then []
      else Massbal_addInflowFlow EXTERNAL_INFLOW (ext_direct_flow ext currentDate n)
           # map (ext_load_report ext currentDate (ext_load_flow ext currentDate n))
               (filter (\<lambda>r. ext_type r \<noteq> FLOW_INFLOW) (extInflow n)))"

text \<open>
  An outfall with a net inflow of \<open>-3\<close> in the previous step, a flow record that
  yields zero (as every record does with \<open>env0\<close>) and a concentration record.
\<close>

definition sim_backflow :: sim where
  "sim_backflow = sim0\<lparr>obj := (obj sim0)\<lparr>Node :=
     [node0\<lparr>ntype := OUTFALL, oldNetInflow := - 3,
        extInflow := [\<lparr>ext_param = - 1, ext_type = FLOW_INFLOW, ext_series = 0\<rparr>,
                      \<lparr>ext_param = 0, ext_type = CONCEN_INFLOW, ext_series = 1\<rparr>]\<rparr>]\<rparr>\<rparr>"

text \<open>The same with a concentration of 5 and no direct flow.\<close>

definition env_concen :: env where
  "env_concen = env0\<lparr>inflow_getExtInflow := (\<lambda>r d. if ext_type r = CONCEN_INFLOW then 5 else 0)\<rparr>"

text \<open>Two nodes agree in what addExternalInflows reads of a node.\<close>

definition same_ext_inputs :: "node \<Rightarrow> node \<Rightarrow> bool" where
  "same_ext_inputs n n' \<longleftrightarrow>
     ntype n' = ntype n \<and> oldNetInflow n' = oldNetInflow n \<and> extInflow n' = extInflow n"

subsection \<open>What a part of a step leaves alone\<close>

text \<open>From \<open>s\<close> to \<open>s'\<close> nothing but the objects and the trace has changed.\<close>

definition only_objects :: "sim \<Rightarrow> sim \<Rightarrow> bool" where
  "only_objects s s' \<longleftrightarrow> s' = s\<lparr>obj := obj s', trace := trace s'\<rparr>"

text \<open>
  A project whose error latch is set: one event, \<open>NextEvent = 1\<close>.
\<close>

definition sim_failed :: sim where
  "sim_failed = sim0\<lparr>obj := (obj sim0)\<lparr>ErrorCode := 1\<rparr>,
     swmm_Event := [\<lparr>ev_start = 10, ev_end = 20\<rparr>], NextEvent := 1, BetweenEvents := True\<rparr>"

text \<open>
  A network of one conduit between two events: the clock stands at zero, the next
  runoff and report times are not ahead of it, and the next event starts at date 10.
\<close>

definition link0 :: link where
  "link0 = \<lparr>ltype = CONDUIT, lsubIndex = 0, setting = 1, targetSetting = 1, timeLastSet = 0\<rparr>"

definition sim_between :: sim where
  "sim_between = sim0\<lparr>obj := (obj sim0)\<lparr>Link := [link0]\<rparr>,
     swmm_Event := [\<lparr>ev_start = 10, ev_end = 20\<rparr>], NextEvent := 0, BetweenEvents := True\<rparr>"

text \<open>A project without nodes and links, with one event from date 10 to date 20.\<close>

definition sim_one_event :: sim where
  "sim_one_event = sim0\<lparr>swmm_Event := [\<lparr>ev_start = 10, ev_end = 20\<rparr>]\<rparr>"

text \<open>
  The state after a step; the state itself when the step raises. \<open>sim_opened\<close> is the
  project after routing_open, \<open>sim_step1\<close> and \<open>sim_step2\<close> are the states after one and
  two steps of 30 seconds: the first step starts at date 0, before the event, the
  second at date 30, after its end.
\<close>

definition after_step :: "env \<Rightarrow> int \<Rightarrow> real \<Rightarrow> sim \<Rightarrow> sim" where
  "after_step ext routingModel routingStep s =
     (case routing_execute ext routingModel routingStep s of Inr s' \<Rightarrow> s' | Inl e \<Rightarrow> s)"

definition sim_opened :: sim where
  "sim_opened = snd (routing_open env0 sim_one_event)"

definition sim_step1 :: sim where
  "sim_step1 = after_step env0 0 30 sim_opened"

definition sim_step2 :: sim where
  "sim_step2 = after_step env0 0 30 sim_step1"

text \<open>The network of one conduit with the event cursor behind the last event.\<close>

definition sim_link_events_over :: sim where
  "sim_link_events_over = sim_between\<lparr>NextEvent := 1\<rparr>"

text \<open>
  The same two projects with an array that holds a closing entry behind its one
  event, far in the future: the project without links after \<^verbatim>\<open>routing_open\<close> and
  after one, two and three steps of 30 seconds, and the network of one conduit.
\<close>

definition closing_entry :: event where
  "closing_entry = \<lparr>ev_start = 10000000000, ev_end = 10000000001\<rparr>"

definition sim_closed0 :: sim where
  "sim_closed0 = snd (routing_open env0 (sim_one_event\<lparr>swmm_Event_rest := [closing_entry]\<rparr>))"

definition sim_closed1 :: sim where
  "sim_closed1 = after_step env0 0 30 sim_closed0"

definition sim_closed2 :: sim where
  "sim_closed2 = after_step env0 0 30 sim_closed1"

definition sim_closed3 :: sim where
  "sim_closed3 = after_step env0 0 30 sim_closed2"

definition sim_link_closed :: sim where
  "sim_link_closed = sim_link_events_over\<lparr>swmm_Event_rest := [closing_entry]\<rparr>"

subsection \<open>What removeOutflows reports for a node\<close>

text \<open>
  The reports for the pollutant mass that leaves with a negative lateral inflow of
  the node \<open>n\<close>, for \<open>np\<close> pollutants.
\<close>

definition lateral_loss_calls :: "node \<Rightarrow> nat \<Rightarrow> call list" where
  "lateral_loss_calls n np =
     (if newLatFlow n < 0
      then map (\<lambda>p. Massbal_addOutflowQual (int p) (- newLatFlow n * newQual n (int p)) (Some False))
             [0..<np]
      else [])"

text \<open>A call that reports an outflow of water to the ledger.\<close>

definition is_outflow_report :: "call \<Rightarrow> bool" where
  "is_outflow_report c = (case c of Massbal_addOutflowFlow q f \<Rightarrow> True | _ \<Rightarrow> False)"

text \<open>
  Two nodes and one pollutant. Node 0 has the system outflow 2 and the concentration
  4; node 1 has the system outflow \<open>-3\<close>, and a lateral inflow of \<open>-1\<close> at the
  concentration 5.
\<close>

definition env_outflows :: env where
  "env_outflows = env0\<lparr>node_getSystemOutflow := (\<lambda>i s. (if i = 0 then 2 else - 3, obj s))\<rparr>"

definition sim_outflows :: sim where
  "sim_outflows = sim0\<lparr>obj := (obj sim0)\<lparr>Node :=
       [node0\<lparr>newQual := (\<lambda>p. 4)\<rparr>,
        node0\<lparr>ntype := OUTFALL, newLatFlow := - 1, newQual := (\<lambda>p. 5)\<rparr>]\<rparr>,
     Pollut := [\<lparr>dwfConcen = 0, gwConcen = 0, rdiiConcen = 0\<rparr>]\<rparr>"

subsection \<open>The calls of a step\<close>

text \<open>A call of the flow routing solver, and a call that changes a link's setting.\<close>

definition is_flowrout_execute :: "call \<Rightarrow> bool" where
  "is_flowrout_execute c = (case c of Flowrout_execute l m t \<Rightarrow> True | _ \<Rightarrow> False)"

definition is_link_setSetting :: "call \<Rightarrow> bool" where
  "is_link_setSetting c = (case c of Link_setSetting j t \<Rightarrow> True | _ \<Rightarrow> False)"

definition quiet_call :: "call \<Rightarrow> bool" where
  "quiet_call c \<longleftrightarrow> \<not> is_flowrout_execute c \<and> \<not> is_link_setSetting c"

text \<open>
  From \<open>s\<close> to \<open>s'\<close> the trace was extended; \<open>n\<close> of the new calls change a link's
  setting, and a call of the solver is among them exactly if \<open>b\<close> holds.
\<close>

definition step_calls :: "nat \<Rightarrow> bool \<Rightarrow> sim \<Rightarrow> sim \<Rightarrow> bool" where
  "step_calls n b s s' \<longleftrightarrow>
     (\<exists>x. trace s' = trace s @ x \<and> length (filter is_link_setSetting x) = n
          \<and> list_ex is_flowrout_execute x = b)"

text \<open>
  A relation between states that holds along every sequence of the elementary
  steps of the model other than a call of the solver and a change of a setting:
  reports, calls of other collaborators, and updates of the objects.
\<close>

definition step_closed :: "(sim \<Rightarrow> sim \<Rightarrow> bool) \<Rightarrow> bool" where
  "step_closed R \<longleftrightarrow>
     (\<forall>s. R s s) \<and> (\<forall>s t u. R s t \<longrightarrow> R t u \<longrightarrow> R s u)
     \<and> (\<forall>c s. quiet_call c \<longrightarrow> R s (tell c s))
     \<and> (\<forall>c f s. quiet_call c \<longrightarrow> R s (invoke c f s))
     \<and> (\<forall>s ob. R s (s\<lparr>obj := ob\<rparr>))"

text \<open>
  The scenario of the specification: one node with an external inflow of 2 for the
  whole run, one conduit, no pollutants, no events, the steady state option
  switched on, and flow statistics reported. \<open>sim_flow1\<close> and \<open>sim_flow2\<close> are the
  states after one and two steps of 30 seconds.
\<close>

definition env_flow :: env where
  "env_flow = env0\<lparr>inflow_getExtInflow := (\<lambda>r d. 2)\<rparr>"

definition sim_flow0 :: sim where
  "sim_flow0 = sim0\<lparr>obj := (obj sim0)\<lparr>Node :=
       [node0\<lparr>extInflow := [\<lparr>ext_param = - 1, ext_type = FLOW_INFLOW, ext_series = 0\<rparr>]\<rparr>],
       Link := [link0],
       Conduit := [\<lparr>barrels = 1, evapLossRate = 0, seepLossRate = 0\<rparr>]\<rparr>,
     SkipSteadyState := True, RptFlags_flowStats := True\<rparr>"

definition sim_flow1 :: sim where
  "sim_flow1 = after_step env_flow 0 30 sim_flow0"

definition sim_flow2 :: sim where
  "sim_flow2 = after_step env_flow 0 30 sim_flow1"

section \<open>Properties\<close>

subsection \<open>sortEvents\<close>

lemma length_exchange_step [simp]: "length (exchange_step i ev j) = length ev"
  by (simp add: exchange_step_def)









lemma length_clip_step [simp]: "length (clip_step ev i) = length ev"
  by (simp add: clip_step_def)

lemma clipped_upto_step:
  assumes "clipped_upto k ev0 ev" "Suc k < length ev0"
  shows "clipped_upto (Suc k) ev0 (clip_step ev k)"
proof -
  from assms have len: "length ev = length ev0"
    and nth: "\<And>i. i < length ev0 \<Longrightarrow> ev ! i =
        (if i < k then (ev0 ! i)\<lparr>ev_end := min (ev_end (ev0 ! i)) (ev_start (ev0 ! Suc i))\<rparr>
         else ev0 ! i)"
    by (simp_all add: clipped_upto_def)
  have k: "ev ! k = ev0 ! k" and sk: "ev ! Suc k = ev0 ! Suc k"
    using nth[of k] nth[of "Suc k"] assms(2) by simp_all
  show ?thesis
    unfolding clipped_upto_def
  proof (intro conjI allI impI)
    show "length (clip_step ev k) = length ev0" using len by simp
  next
    fix i assume i: "i < length ev0"
    show "clip_step ev k ! i =
        (if i < Suc k then (ev0 ! i)\<lparr>ev_end := min (ev_end (ev0 ! i)) (ev_start (ev0 ! Suc i))\<rparr>
         else ev0 ! i)"
    proof (cases "i = k")
      case True
      then show ?thesis using k sk len i
        by (simp add: clip_step_def min_def)
    next
      case False
      then have "clip_step ev k ! i = ev ! i" by (simp add: clip_step_def)
      with False nth[OF i] show ?thesis by (simp add: less_Suc_eq)
    qed
  qed
qed

lemma clipped_upto_foldl:
  "k \<le> length ev0 - 1 \<Longrightarrow> clipped_upto k ev0 (foldl clip_step ev0 [0..<k])"
proof (induction k)
  case 0
  then show ?case by (simp add: clipped_upto_def)
next
  case (Suc k)
  then show ?case using clipped_upto_step[of k ev0] by simp
qed

lemma clipped_upto_adjust:
  "clipped_upto (length ev - 1) ev (adjust_overlaps (length ev) ev)"
  unfolding adjust_overlaps_def by (rule clipped_upto_foldl) simp


lemma length_adjust_overlaps [simp]: "length (adjust_overlaps (length ev) ev) = length ev"
  using clipped_upto_adjust[of ev] by (simp add: clipped_upto_def)






subsection \<open>inflowHasChanged\<close>

lemma inflowHasChanged_nodes_Cons:
  "inflowHasChanged_nodes ext tol (n # ns) \<longleftrightarrow>
     spec_node_triggers (TINY ext) tol n \<or> inflowHasChanged_nodes ext tol ns"
  unfolding inflowHasChanged_nodes.simps Let_def spec_relative_change_def[symmetric]
    spec_node_triggers_def
  by auto

lemma inflowHasChanged_nodes_iff:
  "inflowHasChanged_nodes ext tol ns \<longleftrightarrow> (\<exists>n \<in> set ns. spec_node_triggers (TINY ext) tol n)"
proof (induction ns)
  case Nil
  show ?case by simp
next
  case (Cons n ns)
  show ?case unfolding inflowHasChanged_nodes_Cons Cons.IH by simp
qed

lemma spec_relative_change_same:
  "0 \<le> tiny \<Longrightarrow> spec_relative_change tiny q q = 0"
  by (auto simp: spec_relative_change_def)

text \<open>
  C4. inflowHasChanged returns true exactly when some node triggers the test of the
  relative change, applied to the lateral inflow of every node and, for an outfall
  or a node of degree 0, also to its total inflow. When every new lateral and total
  inflow equals the old one it returns false. \<open>TINY\<close> and \<open>LatFlowTol\<close> are a
  magnitude and a tolerance: neither is negative. (With \<open>TINY\<close> nonnegative the
  quotient \<^verbatim>\<open>qNew / qOld\<close> is never taken at \<open>qOld = 0\<close>.)
\<close>

theorem inflowHasChanged_iff_some_node_triggers:
  assumes "0 \<le> TINY ext"
  shows "(inflowHasChanged ext s \<longleftrightarrow>
            (\<exists>n \<in> set (Node (obj s)). spec_node_triggers (TINY ext) (LatFlowTol s) n))
         \<and> (0 \<le> LatFlowTol s
              \<and> (\<forall>n \<in> set (Node (obj s)). newLatFlow n = oldLatFlow n \<and> inflow n = oldFlowInflow n)
            \<longrightarrow> \<not> inflowHasChanged ext s)"
proof -
  have iff: "inflowHasChanged ext s \<longleftrightarrow>
            (\<exists>n \<in> set (Node (obj s)). spec_node_triggers (TINY ext) (LatFlowTol s) n)"
    by (simp add: inflowHasChanged_def inflowHasChanged_nodes_iff)
  have "\<not> spec_node_triggers (TINY ext) (LatFlowTol s) n"
    if "0 \<le> LatFlowTol s" "newLatFlow n = oldLatFlow n" "inflow n = oldFlowInflow n" for n
    using that assms by (simp add: spec_node_triggers_def spec_relative_change_same)
  with iff show ?thesis by blast
qed

theorem inflowHasChanged_iff_some_node_triggers_witness:
  "0 \<le> TINY env0 \<and> 0 \<le> LatFlowTol sim_steady
   \<and> \<not> inflowHasChanged env0 sim_steady
   \<and> inflowHasChanged env0 sim_changed
   \<and> spec_node_triggers (TINY env0) (LatFlowTol sim_changed) (Node (obj sim_changed) ! 1)"
proof -
  have t: "0 \<le> TINY env0" by (simp add: env0_def)
  have l: "0 \<le> LatFlowTol sim_steady" by (simp add: sim_steady_def sim0_def)
  have same: "\<forall>n \<in> set (Node (obj sim_steady)). newLatFlow n = oldLatFlow n \<and> inflow n = oldFlowInflow n"
    by (simp add: sim_steady_def sim0_def node0_def)
  have trig: "spec_node_triggers (TINY env0) (LatFlowTol sim_changed) (Node (obj sim_changed) ! 1)"
    by (simp add: sim_changed_def sim0_def node0_def env0_def spec_node_triggers_def
        spec_relative_change_def)
  have mem: "Node (obj sim_changed) ! 1 \<in> set (Node (obj sim_changed))"
    by (simp add: sim_changed_def sim0_def)
  from inflowHasChanged_iff_some_node_triggers[OF t, of sim_steady] l same
  have 1: "\<not> inflowHasChanged env0 sim_steady" by blast
  from inflowHasChanged_iff_some_node_triggers[OF t, of sim_changed] trig mem
  have 2: "inflowHasChanged env0 sim_changed" by blast
  from t l 1 2 trig show ?thesis by blast
qed

subsection \<open>addDryWeatherInflows\<close>

lemma dwf_flow_lookup_eq:
  "dwf_flow_lookup rs = (if list_ex (\<lambda>r. dwf_param r < 0) rs then Inl ReferenceError else Inr 0)"
  by (induction rs) simp_all

lemma add_newLatFlow_zero [simp]: "add_newLatFlow j 0 s = s"
  by (simp add: add_newLatFlow_def upd_Node_def)

lemma addDryWeatherInflows_node_eq:
  "addDryWeatherInflows_node ext j s =
     (if has_dwf_flow_record (Node (obj s) ! j) then Inl ReferenceError
      else Inr (if dwfInflow (Node (obj s) ! j) = [] then s
                else tell (Massbal_addInflowFlow DRY_WEATHER_INFLOW 0) s))"
  by (simp add: addDryWeatherInflows_node_def dwf_flow_lookup_eq has_dwf_flow_record_def thenE_def)

lemma obj_tell [simp]: "obj (tell c s) = obj s"
  by (simp add: tell_def)

lemma trace_tell [simp]: "trace (tell c s) = trace s @ [c]"
  by (simp add: tell_def)

lemma dwf_loop:
  "forE js (addDryWeatherInflows_node ext) s =
     (if list_ex (\<lambda>j. has_dwf_flow_record (Node (obj s) ! j)) js then Inl ReferenceError
      else Inr (s\<lparr>trace := trace s @
             replicate (length (filter (\<lambda>j. dwfInflow (Node (obj s) ! j) \<noteq> []) js))
               (Massbal_addInflowFlow DRY_WEATHER_INFLOW 0)\<rparr>))"
proof (induction js arbitrary: s)
  case Nil
  show ?case by simp
next
  case (Cons j js)
  note step = addDryWeatherInflows_node_eq[of ext j s]
  show ?case
  proof (cases "has_dwf_flow_record (Node (obj s) ! j)")
    case True
    then show ?thesis by (simp add: step)
  next
    case False
    show ?thesis
    proof (cases "dwfInflow (Node (obj s) ! j) = []")
      case True
      with False show ?thesis by (simp add: step Cons.IH)
    next
      case nonempty: False
      have "replicate n c @ [c] = c # replicate n c" for n and c :: call
        by (simp add: replicate_append_same)
      with False nonempty show ?thesis
        by (simp add: step Cons.IH tell_def)
    qed
  qed
qed

lemma list_ex_nth_upt: "list_ex (\<lambda>j. P (xs ! j)) [0..<length xs] = list_ex P xs"
proof -
  have "list_ex P (map (\<lambda>j. xs ! j) [0..<length xs]) = list_ex (\<lambda>j. P (xs ! j)) [0..<length xs]"
    by (simp add: list_ex_iff)
  then show ?thesis by (simp add: map_nth)
qed

lemma filter_nth_upt: "length (filter (\<lambda>j. P (xs ! j)) [0..<length xs]) = length (filter P xs)"
proof -
  have "map (\<lambda>j. xs ! j) (filter (\<lambda>j. P (xs ! j)) [0..<length xs])
          = filter P (map (\<lambda>j. xs ! j) [0..<length xs])"
    by (simp add: filter_map comp_def)
  then have "length (filter (\<lambda>j. P (xs ! j)) [0..<length xs]) = length (filter P (map (\<lambda>j. xs ! j) [0..<length xs]))"
    by (metis length_map)
  then show ?thesis by (simp add: map_nth)
qed

text \<open>
  C9, as amended. When some node has a dry weather flow record (a record with a
  negative \<^verbatim>\<open>param\<close>), addDryWeatherInflows raises the ReferenceError of \<^verbatim>\<open>inObj\<close>
  and never completes. When no node has one, it completes without reading \<^verbatim>\<open>inObj\<close>:
  it reports a flow of zero for every node with a non-empty list and changes no
  node. So it never delivers a flow or a pollutant load.
\<close>

theorem addDryWeatherInflows_never_delivers:
  "addDryWeatherInflows ext currentDate s =
     (if list_ex has_dwf_flow_record (Node (obj s)) then Inl ReferenceError
      else Inr (s\<lparr>trace := trace s @
             replicate (length (filter (\<lambda>n. dwfInflow n \<noteq> []) (Node (obj s))))
               (Massbal_addInflowFlow DRY_WEATHER_INFLOW 0)\<rparr>))"
  unfolding addDryWeatherInflows_def dwf_loop
  using list_ex_nth_upt[of has_dwf_flow_record "Node (obj s)"]
    filter_nth_upt[of "\<lambda>n. dwfInflow n \<noteq> []" "Node (obj s)"]
  by simp

theorem addDryWeatherInflows_never_delivers_witness:
  "list_ex has_dwf_flow_record (Node (obj sim_dwf_flow))
   \<and> addDryWeatherInflows env0 0 sim_dwf_flow = Inl ReferenceError"
proof -
  have h: "list_ex has_dwf_flow_record (Node (obj sim_dwf_flow))"
    by (simp add: sim_dwf_flow_def sim0_def node0_def has_dwf_flow_record_def)
  with addDryWeatherInflows_never_delivers[of env0 0 sim_dwf_flow] show ?thesis by simp
qed

text \<open>
  The claim as stated fails for a node whose only record is a pollutant record: the
  list is not empty, \<^verbatim>\<open>inObj\<close> is never evaluated, and the function completes.
\<close>

theorem addDryWeatherInflows_completes_counterexample:
  "dwfInflow (Node (obj sim_dwf_pollutant) ! 0) \<noteq> []
   \<and> addDryWeatherInflows env0 0 sim_dwf_pollutant
       = Inr (sim_dwf_pollutant\<lparr>trace := [Massbal_addInflowFlow DRY_WEATHER_INFLOW 0]\<rparr>)"
  by (simp add: sim_dwf_pollutant_def sim0_def node0_def addDryWeatherInflows_def
      addDryWeatherInflows_node_eq has_dwf_flow_record_def tell_def)

subsection \<open>Conservation in the inflow procedures\<close>

lemma flows_reported_simps [simp]:
  "flows_reported [] = 0"
  "flows_reported (xs @ ys) = flows_reported xs + flows_reported ys"
  "flows_reported [Massbal_addInflowFlow t q] = q"
  "flows_reported [Massbal_addInflowQual t p w] = 0"
  by (simp_all add: flows_reported_def inflow_flow_def)

lemma Node_upd_Node [simp]:
  "Node (obj (upd_Node j f s)) = (Node (obj s))[j := f (Node (obj s) ! j)]"
  by (simp add: upd_Node_def)

lemma trace_upd_Node [simp]: "trace (upd_Node j f s) = trace s"
  by (simp add: upd_Node_def)

lemma map_update_same: "f x = f (xs ! j) \<Longrightarrow> map f (xs[j := x]) = map f xs"
  by (metis list_update_id map_update)

lemma sum_list_update_add:
  "j < length ys \<Longrightarrow> sum_list (ys[j := ys ! j + q]) = sum_list ys + (q::real)"
proof (induction ys arbitrary: j)
  case Nil
  then show ?case by simp
next
  case (Cons y ys)
  then show ?case by (cases j) simp_all
qed

lemma sum_list_map_update_add:
  assumes "j < length xs"
  shows "sum_list ((map f xs)[j := f (xs ! j) + q]) = sum_list (map f xs) + (q::real)"
  using sum_list_update_add[of j "map f xs" q] assms by simp

lemma Nobjects_NODE_add [simp]:
  "Nobjects_NODE (add_newLatFlow j q s) = Nobjects_NODE s"
  "Nobjects_NODE (add_newQual j p w s) = Nobjects_NODE s"
  "Nobjects_NODE (tell c s) = Nobjects_NODE s"
  by (simp_all add: add_newLatFlow_def add_newQual_def)

lemma trace_add [simp]:
  "trace (add_newLatFlow j q s) = trace s"
  "trace (add_newQual j p w s) = trace s"
  by (simp_all add: add_newLatFlow_def add_newQual_def)

lemma lat_total_add_newLatFlow:
  "j < Nobjects_NODE s \<Longrightarrow> lat_total (add_newLatFlow j q s) = lat_total s + q"
  by (simp add: lat_total_def add_newLatFlow_def map_update sum_list_map_update_add)

lemma lat_total_add_newQual [simp]: "lat_total (add_newQual j p w s) = lat_total s"
proof -
  have "map newLatFlow ((Node (obj s))[j := (Node (obj s) ! j)\<lparr>newQual := g\<rparr>])
          = map newLatFlow (Node (obj s))" for g
    by (rule map_update_same) simp
  then show ?thesis by (simp add: lat_total_def add_newQual_def)
qed

lemma lat_total_tell [simp]: "lat_total (tell c s) = lat_total s"
  by (simp add: lat_total_def)

lemma conserves_refl [simp]: "conserves s s"
  by (simp add: conserves_def)

lemma conserves_trans: "conserves s t \<Longrightarrow> conserves t u \<Longrightarrow> conserves s u"
  by (auto simp: conserves_def)

lemma conserves_flow:
  "j < Nobjects_NODE s \<Longrightarrow> conserves s (tell (Massbal_addInflowFlow t q) (add_newLatFlow j q s))"
  by (simp add: conserves_def lat_total_add_newLatFlow)

lemma conserves_qual:
  "conserves s (tell (Massbal_addInflowQual t p w) (add_newQual j p w s))"
  by (simp add: conserves_def)

lemma forS_conserves:
  assumes "\<And>j t. j \<in> set js \<Longrightarrow> Nobjects_NODE t = N \<Longrightarrow> conserves t (f j t)"
    and "Nobjects_NODE s = N"
  shows "conserves s (forS js f s)"
  using assms
proof (induction js arbitrary: s)
  case Nil
  show ?case by simp
next
  case (Cons j js)
  have 1: "conserves s (f j s)" using Cons.prems by simp
  then have "Nobjects_NODE (f j s) = N" using Cons.prems(2) by (simp add: conserves_def)
  then have "conserves (f j s) (forS js f (f j s))" using Cons.IH Cons.prems(1) by simp
  with 1 show ?case by (simp add: conserves_trans)
qed

lemma forE_conserves:
  assumes "\<And>j t t'. j \<in> set js \<Longrightarrow> Nobjects_NODE t = N \<Longrightarrow> f j t = Inr t' \<Longrightarrow> conserves t t'"
    and "Nobjects_NODE s = N" and "forE js f s = Inr s'"
  shows "conserves s s'"
  using assms
proof (induction js arbitrary: s)
  case Nil
  then show ?case by simp
next
  case (Cons j js)
  from Cons.prems(3) obtain t where t: "f j s = Inr t" and r: "forE js f t = Inr s'"
    by (auto split: sum.splits)
  have 1: "conserves s t" using Cons.prems(1)[of j s t] Cons.prems(2) t by simp
  then have "Nobjects_NODE t = N" using Cons.prems(2) by (simp add: conserves_def)
  then have "conserves t s'" using Cons.prems(1) r by (intro Cons.IH) auto
  with 1 show ?case by (rule conserves_trans)
qed


lemma conserves_ext_qual_loads: "conserves s (ext_qual_loads ext d j q rs s)"
proof (induction rs arbitrary: s)
  case Nil
  show ?case by simp
next
  case (Cons r rs)
  let ?t = "if ext_type r \<noteq> FLOW_INFLOW
        then (let p = ext_param r;
                  w = inflow_getExtInflow ext r d;
                  w = (if ext_type r = CONCEN_INFLOW then w * q else w)
              in tell (Massbal_addInflowQual EXTERNAL_INFLOW p w) (add_newQual j p w s))
        else s"
  have "conserves s ?t" by (simp add: Let_def conserves_qual)
  moreover have "conserves ?t (ext_qual_loads ext d j q rs ?t)" by (rule Cons.IH)
  ultimately show ?case by (simp only: ext_qual_loads.simps conserves_trans)
qed

lemma conserves_addExternalInflows_node:
  assumes "j < Nobjects_NODE s"
  shows "conserves s (addExternalInflows_node ext d j s)"
proof (cases "extInflow (Node (obj s) ! j) = []")
  case True
  then show ?thesis by (simp add: addExternalInflows_node_def)
next
  case False
  define q where "q = (let q = ext_flow_lookup ext d (extInflow (Node (obj s) ! j))
                       in if \<bar>q\<bar> < FLOW_TOL ext then 0 else q)"
  define s1 where "s1 = tell (Massbal_addInflowFlow EXTERNAL_INFLOW q) (add_newLatFlow j q s)"
  have 1: "conserves s s1" unfolding s1_def using assms by (rule conserves_flow)
  define q' where "q' = (if ntype (Node (obj s1) ! j) = OUTFALL \<and> oldNetInflow (Node (obj s1) ! j) < 0
                         then q - oldNetInflow (Node (obj s1) ! j) else q)"
  have "addExternalInflows_node ext d j s
          = ext_qual_loads ext d j q' (extInflow (Node (obj s1) ! j)) s1"
    using False by (simp add: addExternalInflows_node_def Let_def q_def s1_def q'_def)
  with 1 conserves_ext_qual_loads[of s1 ext d j q'] show ?thesis
    by (simp add: conserves_trans)
qed

lemma conserves_addExternalInflows: "conserves s (addExternalInflows ext d s)"
  unfolding addExternalInflows_def
  by (rule forS_conserves[where N = "Nobjects_NODE s"])
     (simp_all add: conserves_addExternalInflows_node)

lemma conserves_zero_flow: "conserves s (tell (Massbal_addInflowFlow t 0) s)"
  by (simp add: conserves_def)

lemma conserves_addDryWeatherInflows:
  assumes "addDryWeatherInflows ext d s = Inr s'"
  shows "conserves s s'"
proof (rule forE_conserves[where N = "Nobjects_NODE s" and js = "[0..<Nobjects_NODE s]"
          and f = "addDryWeatherInflows_node ext"])
  fix j t t'
  assume "addDryWeatherInflows_node ext j t = Inr t'"
  then have "t' = t \<or> t' = tell (Massbal_addInflowFlow DRY_WEATHER_INFLOW 0) t"
    unfolding addDryWeatherInflows_node_eq[of ext j t] by (auto split: if_splits)
  then show "conserves t t'" by (auto simp: conserves_zero_flow)
next
  show "forE [0..<Nobjects_NODE s] (addDryWeatherInflows_node ext) s = Inr s'"
    using assms by (simp add: addDryWeatherInflows_def)
qed simp

lemma conserves_loads:
  assumes "\<And>p t. \<exists>w. f p t = tell (Massbal_addInflowQual c (int p) w) (add_newQual j (int p) w t)"
  shows "conserves s (forS ps f s)"
proof (rule forS_conserves[where N = "Nobjects_NODE s"])
  fix p t
  from assms[of p t] obtain w where "f p t = tell (Massbal_addInflowQual c (int p) w) (add_newQual j (int p) w t)" ..
  then show "conserves t (f p t)" by (simp add: conserves_qual)
qed simp

lemma conserves_wet:
  assumes "addWetWeatherInflows_subcatch ext f i s = Inr s'"
  shows "conserves s s'"
proof (cases "outNode (Subcatch s ! i) \<ge> 0 \<and> nat (outNode (Subcatch s ! i)) < Nobjects_NODE s")
  case False
  with assms have "s' = s"
    by (auto simp: addWetWeatherInflows_subcatch_def Let_def split: if_splits)
  then show ?thesis by simp
next
  case True
  define j where "j = nat (outNode (Subcatch s ! i))"
  define q where "q = subcatch_getWtdOutflow ext i f"
  define s1 where "s1 = tell (Massbal_addInflowFlow WET_WEATHER_INFLOW q) (add_newLatFlow j q s)"
  have 1: "conserves s s1" unfolding s1_def using True by (intro conserves_flow) (simp add: j_def)
  have "s' = forS [0..<Nobjects_POLLUT s1] (wet_weather_load ext i f j) s1"
    using assms True by (auto simp: addWetWeatherInflows_subcatch_def Let_def j_def q_def s1_def)
  moreover have "conserves s1 (forS [0..<Nobjects_POLLUT s1] (wet_weather_load ext i f j) s1)"
    by (rule conserves_loads[where c = WET_WEATHER_INFLOW and j = j])
       (auto simp: wet_weather_load_def Let_def)
  ultimately show ?thesis using 1 by (simp add: conserves_trans)
qed


lemma conserves_addWetWeatherInflows:
  assumes "addWetWeatherInflows ext t s = Inr s'"
  shows "conserves s s'"
proof (cases "Nobjects_SUBCATCH s = 0")
  case True
  with assms show ?thesis by (simp add: addWetWeatherInflows_def)
next
  case False
  with assms obtain f where
    "forE [0..<Nobjects_SUBCATCH s] (addWetWeatherInflows_subcatch ext f) s = Inr s'"
    by (auto simp: addWetWeatherInflows_def thenE_def split: sum.splits)
  then show ?thesis
    by (rule forE_conserves[where N = "Nobjects_NODE s", rotated 2]) (simp_all add: conserves_wet)
qed

lemma conserves_gw:
  assumes "addGroundwaterInflows_subcatch ext f i s = Inr s'"
  shows "conserves s s'"
proof (cases "groundwater (Subcatch s ! i)")
  case None
  with assms show ?thesis by (simp add: addGroundwaterInflows_subcatch_def)
next
  case (Some gw)
  define q where "q = ((1 - f) * oldFlow gw + f * newFlow gw) * area (Subcatch s ! i)"
  show ?thesis
  proof (cases "gw_node gw \<ge> 0 \<and> \<not> \<bar>q\<bar> < FLOW_TOL ext")
    case False
    with assms Some have "s' = s"
      by (auto simp: addGroundwaterInflows_subcatch_def Let_def q_def split: if_splits)
    then show ?thesis by simp
  next
    case True
    define j where "j = nat (gw_node gw)"
    define s1 where "s1 = tell (Massbal_addInflowFlow GROUNDWATER_INFLOW q) (add_newLatFlow j q s)"
    from assms Some True have j: "j < Nobjects_NODE s"
      by (auto simp: addGroundwaterInflows_subcatch_def Let_def q_def j_def split: if_splits)
    then have 1: "conserves s s1" unfolding s1_def by (rule conserves_flow)
    have "s' = (if q > 0 then forS [0..<Nobjects_POLLUT s1] (groundwater_load j q) s1 else s1)"
      using assms Some True j
      by (auto simp: addGroundwaterInflows_subcatch_def Let_def q_def j_def s1_def)
    moreover have "conserves s1 (forS [0..<Nobjects_POLLUT s1] (groundwater_load j q) s1)"
      by (rule conserves_loads[where c = GROUNDWATER_INFLOW and j = j])
         (auto simp: groundwater_load_def Let_def)
    ultimately have "conserves s1 s'" by simp
    with 1 show ?thesis by (rule conserves_trans)
  qed
qed

lemma conserves_addGroundwaterInflows:
  assumes "addGroundwaterInflows ext t s = Inr s'"
  shows "conserves s s'"
proof (cases "Nobjects_SUBCATCH s = 0")
  case True
  with assms show ?thesis by (simp add: addGroundwaterInflows_def)
next
  case False
  with assms obtain f where
    "forE [0..<Nobjects_SUBCATCH s] (addGroundwaterInflows_subcatch ext f) s = Inr s'"
    by (auto simp: addGroundwaterInflows_def thenE_def split: sum.splits)
  then show ?thesis
    by (rule forE_conserves[where N = "Nobjects_NODE s", rotated 2]) (simp_all add: conserves_gw)
qed

lemma conserves_lid_flows:
  "lid_addDrainInflow_flows kqs s = Inr s' \<Longrightarrow> conserves s s'"
proof (induction kqs s rule: lid_addDrainInflow_flows.induct)
  case (1 s)
  then show ?case by simp
next
  case (2 k q rest s)
  let ?t = "tell (Massbal_addInflowFlow WET_WEATHER_INFLOW q) (add_newLatFlow (nat k) q s)"
  from "2.prems" have ok: "0 \<le> k \<and> nat k < Nobjects_NODE s" and r: "lid_addDrainInflow_flows rest ?t = Inr s'"
    by (auto split: if_splits)
  from ok have "conserves s ?t" by (intro conserves_flow) simp
  moreover have "conserves ?t s'" using "2.IH" ok r by simp
  ultimately show ?case by (rule conserves_trans)
qed

lemma conserves_addLidDrainInflows:
  assumes "addLidDrainInflows ext t s = Inr s'"
  shows "conserves s s'"
proof (cases "Nobjects_SUBCATCH s = 0")
  case True
  with assms show ?thesis by (simp add: addLidDrainInflows_def)
next
  case False
  with assms obtain f where
    "forE [0..<Nobjects_SUBCATCH s]
       (\<lambda>j s. if area (Subcatch s ! j) > 0 \<and> lidArea (Subcatch s ! j) > 0
               then lid_addDrainInflow ext j f s else Inr s) s = Inr s'"
    by (auto simp: addLidDrainInflows_def thenE_def split: sum.splits)
  then show ?thesis
    by (rule forE_conserves[where N = "Nobjects_NODE s", rotated 2])
       (auto simp: lid_addDrainInflow_def conserves_lid_flows split: if_splits)
qed

lemma conserves_iface:
  assumes "addIfaceInflows_node ext i s = Inr s'"
  shows "conserves s s'"
proof (cases "iface_getIfaceNode ext i \<ge> 0 \<and> \<not> \<bar>iface_getIfaceFlow ext i\<bar> < FLOW_TOL ext")
  case False
  with assms have "s' = s"
    by (auto simp: addIfaceInflows_node_def Let_def split: if_splits)
  then show ?thesis by simp
next
  case True
  define j where "j = nat (iface_getIfaceNode ext i)"
  define q where "q = iface_getIfaceFlow ext i"
  define s1 where "s1 = tell (Massbal_addInflowFlow EXTERNAL_INFLOW q) (add_newLatFlow j q s)"
  from assms True have j: "j < Nobjects_NODE s"
    by (auto simp: addIfaceInflows_node_def Let_def j_def split: if_splits)
  then have 1: "conserves s s1" unfolding s1_def by (rule conserves_flow)
  have "s' = (if q > 0 then forS [0..<Nobjects_POLLUT s1] (iface_load ext i j q) s1 else s1)"
    using assms True j
    by (auto simp: addIfaceInflows_node_def Let_def q_def j_def s1_def)
  moreover have "conserves s1 (forS [0..<Nobjects_POLLUT s1] (iface_load ext i j q) s1)"
    by (rule conserves_loads[where c = EXTERNAL_INFLOW and j = j])
       (auto simp: iface_load_def Let_def)
  ultimately have "conserves s1 s'" by simp
  with 1 show ?thesis by (rule conserves_trans)
qed

lemma conserves_addIfaceInflows:
  assumes "addIfaceInflows ext d s = Inr s'"
  shows "conserves s s'"
proof (cases "Finflows_mode s \<noteq> USE_FILE")
  case True
  with assms show ?thesis by (simp add: addIfaceInflows_def)
next
  case False
  with assms have
    "forE [0..<nat (iface_getNumIfaceNodes ext d)] (addIfaceInflows_node ext) s = Inr s'"
    by (simp add: addIfaceInflows_def)
  then show ?thesis
    by (rule forE_conserves[where N = "Nobjects_NODE s", rotated 2]) (simp_all add: conserves_iface)
qed

lemma conserves_addRdiiInflows:
  "addRdiiInflows ext d s = Inr s' \<Longrightarrow> conserves s s'"
  by (auto simp: addRdiiInflows_def split: if_splits)

lemma conserves_aggregate_inflows:
  assumes "aggregate_inflows ext d s = Inr s'"
  shows "conserves s s'"
proof -
  from assms obtain s2 s3 s4 s5 s6 where
    1: "addDryWeatherInflows ext d (addExternalInflows ext d s) = Inr s2"
    and 2: "addWetWeatherInflows ext (OldRoutingTime s2) s2 = Inr s3"
    and 3: "addGroundwaterInflows ext (OldRoutingTime s3) s3 = Inr s4"
    and 4: "addLidDrainInflows ext (OldRoutingTime s4) s4 = Inr s5"
    and 5: "addRdiiInflows ext d s5 = Inr s6"
    and 6: "addIfaceInflows ext d s6 = Inr s'"
    unfolding aggregate_inflows_def thenE_def by (auto split: sum.splits)
  have "conserves s s2"
    using conserves_addExternalInflows conserves_addDryWeatherInflows[OF 1] by (rule conserves_trans)
  then have "conserves s s3"
    using conserves_addWetWeatherInflows[OF 2] by (rule conserves_trans)
  then have "conserves s s4"
    using conserves_addGroundwaterInflows[OF 3] by (rule conserves_trans)
  then have "conserves s s5"
    using conserves_addLidDrainInflows[OF 4] by (rule conserves_trans)
  then have "conserves s s6"
    using conserves_addRdiiInflows[OF 5] by (rule conserves_trans)
  then show ?thesis
    using conserves_addIfaceInflows[OF 6] by (rule conserves_trans)
qed


text \<open>
  C3. In the aggregation phase of a routing step (the seven inflow procedures in
  their order), the flows reported to the ledger by \<^verbatim>\<open>massbal_addInflowFlow\<close>, summed
  over all categories, add up to the amount by which the sum of \<^verbatim>\<open>newLatFlow\<close> over
  all nodes has grown.
\<close>

theorem aggregate_inflows_conservation:
  assumes "aggregate_inflows ext currentDate s = Inr s'"
  shows "\<exists>new. trace s' = trace s @ new \<and> flows_reported new = lat_total s' - lat_total s"
  using conserves_aggregate_inflows[OF assms] by (simp add: conserves_def)

theorem aggregate_inflows_conservation_witness:
  "\<exists>s' new. aggregate_inflows env_inflows 0 sim_inflows = Inr s'
      \<and> trace s' = trace sim_inflows @ new
      \<and> flows_reported new = 8 \<and> lat_total s' - lat_total sim_inflows = 8"
proof -
  have "\<exists>s'. aggregate_inflows env_inflows 0 sim_inflows = Inr s' \<and> lat_total s' = 8"
    by (simp add: aggregate_inflows_def thenE_def addExternalInflows_def
        addExternalInflows_node_def addDryWeatherInflows_def addDryWeatherInflows_node_def
        addWetWeatherInflows_def addWetWeatherInflows_subcatch_def runoff_fraction_def
        addGroundwaterInflows_def addGroundwaterInflows_subcatch_def
        addLidDrainInflows_def lid_addDrainInflow_def addRdiiInflows_def addIfaceInflows_def
        env_inflows_def env0_def sim_inflows_def sim0_def node0_def
        tell_def add_newLatFlow_def upd_Node_def lat_total_def Let_def)
  then obtain s' where r: "aggregate_inflows env_inflows 0 sim_inflows = Inr s'"
    and l: "lat_total s' = 8" by blast
  have l0: "lat_total sim_inflows = 0"
    by (simp add: lat_total_def sim_inflows_def sim0_def node0_def)
  from aggregate_inflows_conservation[OF r] obtain new where
    "trace s' = trace sim_inflows @ new" "flows_reported new = lat_total s' - lat_total sim_inflows"
    by blast
  with r l l0 show ?thesis by auto
qed

subsection \<open>addExternalInflows\<close>

lemma forS_append: "forS (xs @ ys) f s = forS ys f (forS xs f s)"
  by (induction xs arbitrary: s) simp_all

lemma forS_upt_Suc: "forS [0..<Suc k] f s = f k (forS [0..<k] f s)"
  by (simp add: forS_append)

lemma ext_direct_flow_simps [simp]:
  "ext_direct_flow ext d (n\<lparr>newLatFlow := x\<rparr>) = ext_direct_flow ext d n"
  "ext_direct_flow ext d (n\<lparr>newQual := g\<rparr>) = ext_direct_flow ext d n"
  by (simp_all add: ext_direct_flow_def)

lemma ext_qual_loads_effect:
  "\<exists>g. Node (obj (ext_qual_loads ext d j q rs s))
          = (Node (obj s))[j := (Node (obj s) ! j)\<lparr>newQual := g\<rparr>]
      \<and> trace (ext_qual_loads ext d j q rs s)
          = trace s @ map (ext_load_report ext d q) (filter (\<lambda>r. ext_type r \<noteq> FLOW_INFLOW) rs)"
proof (induction rs arbitrary: s)
  case Nil
  show ?case by (intro exI[of _ "newQual (Node (obj s) ! j)"]) simp
next
  case (Cons r rs)
  show ?case
  proof (cases "ext_type r \<noteq> FLOW_INFLOW")
    case False
    then show ?thesis using Cons.IH[of s] by simp
  next
    case True
    define w where "w = (if ext_type r = CONCEN_INFLOW then inflow_getExtInflow ext r d * q
                         else inflow_getExtInflow ext r d)"
    define t where "t = tell (Massbal_addInflowQual EXTERNAL_INFLOW (ext_param r) w)
                          (add_newQual j (ext_param r) w s)"
    have step: "ext_qual_loads ext d j q (r # rs) s = ext_qual_loads ext d j q rs t"
      using True by (simp add: t_def w_def Let_def)
    have nt: "Node (obj t) = (Node (obj s))[j := (Node (obj s) ! j)
                \<lparr>newQual := (newQual (Node (obj s) ! j))
                     (ext_param r := newQual (Node (obj s) ! j) (ext_param r) + w)\<rparr>]"
      by (simp add: t_def add_newQual_def)
    have tt: "trace t = trace s @ [ext_load_report ext d q r]"
      by (simp add: t_def ext_load_report_def w_def)
    from Cons.IH[of t] obtain g where
      g: "Node (obj (ext_qual_loads ext d j q rs t)) = (Node (obj t))[j := (Node (obj t) ! j)\<lparr>newQual := g\<rparr>]"
      and tr: "trace (ext_qual_loads ext d j q rs t)
          = trace t @ map (ext_load_report ext d q) (filter (\<lambda>r. ext_type r \<noteq> FLOW_INFLOW) rs)"
      by blast
    have "(Node (obj t))[j := (Node (obj t) ! j)\<lparr>newQual := g\<rparr>]
            = (Node (obj s))[j := (Node (obj s) ! j)\<lparr>newQual := g\<rparr>]"
      unfolding nt by (cases "j < Nobjects_NODE s") (simp_all add: list_update_beyond not_less)
    with g tr tt True show ?thesis unfolding step by auto
  qed
qed


lemma addExternalInflows_node_effect:
  assumes j: "j < Nobjects_NODE s"
  shows "\<exists>n'. Node (obj (addExternalInflows_node ext d j s)) = (Node (obj s))[j := n']
           \<and> same_ext_inputs (Node (obj s) ! j) n'
           \<and> newLatFlow n' = newLatFlow (Node (obj s) ! j) + ext_direct_flow ext d (Node (obj s) ! j)"
    and "trace (addExternalInflows_node ext d j s)
           = trace s @ ext_node_reports ext d (Node (obj s) ! j)"
proof -
  let ?n = "Node (obj s) ! j"
  show "\<exists>n'. Node (obj (addExternalInflows_node ext d j s)) = (Node (obj s))[j := n']
           \<and> same_ext_inputs ?n n'
           \<and> newLatFlow n' = newLatFlow ?n + ext_direct_flow ext d ?n"
  proof (cases "extInflow ?n = []")
    case True
    then show ?thesis
      by (intro exI[of _ ?n])
         (simp add: addExternalInflows_node_def same_ext_inputs_def ext_direct_flow_def)
  next
    case False
    define q where "q = ext_direct_flow ext d ?n"
    define s1 where "s1 = tell (Massbal_addInflowFlow EXTERNAL_INFLOW q) (add_newLatFlow j q s)"
    define q' where "q' = (if ntype (Node (obj s1) ! j) = OUTFALL \<and> oldNetInflow (Node (obj s1) ! j) < 0
                         then q - oldNetInflow (Node (obj s1) ! j) else q)"
    have eq: "addExternalInflows_node ext d j s
          = ext_qual_loads ext d j q' (extInflow (Node (obj s1) ! j)) s1"
      using False
      by (simp add: addExternalInflows_node_def Let_def q_def s1_def q'_def ext_direct_flow_def)
    have n1: "Node (obj s1) = (Node (obj s))[j := ?n\<lparr>newLatFlow := newLatFlow ?n + q\<rparr>]"
      by (simp add: s1_def add_newLatFlow_def)
    from ext_qual_loads_effect[of ext d j q' "extInflow (Node (obj s1) ! j)" s1] obtain g where
      g: "Node (obj (ext_qual_loads ext d j q' (extInflow (Node (obj s1) ! j)) s1))
            = (Node (obj s1))[j := (Node (obj s1) ! j)\<lparr>newQual := g\<rparr>]"
      by blast
    have "Node (obj (addExternalInflows_node ext d j s))
            = (Node (obj s1))[j := (Node (obj s1) ! j)\<lparr>newQual := g\<rparr>]"
      using g by (simp only: eq)
    also have "\<dots> = (Node (obj s))[j := ?n\<lparr>newLatFlow := newLatFlow ?n + q, newQual := g\<rparr>]"
      unfolding n1 using j by simp
    finally have "Node (obj (addExternalInflows_node ext d j s))
            = (Node (obj s))[j := ?n\<lparr>newLatFlow := newLatFlow ?n + q, newQual := g\<rparr>]" .
    then show ?thesis
      by (intro exI[of _ "?n\<lparr>newLatFlow := newLatFlow ?n + q, newQual := g\<rparr>"])
         (simp add: same_ext_inputs_def q_def)
  qed
  show "trace (addExternalInflows_node ext d j s) = trace s @ ext_node_reports ext d ?n"
  proof (cases "extInflow ?n = []")
    case True
    then show ?thesis by (simp add: addExternalInflows_node_def ext_node_reports_def)
  next
    case False
    define q where "q = ext_direct_flow ext d ?n"
    define s1 where "s1 = tell (Massbal_addInflowFlow EXTERNAL_INFLOW q) (add_newLatFlow j q s)"
    have n1: "Node (obj s1) ! j = ?n\<lparr>newLatFlow := newLatFlow ?n + q\<rparr>"
      using j by (simp add: s1_def add_newLatFlow_def)
    have eq: "addExternalInflows_node ext d j s
          = ext_qual_loads ext d j (ext_load_flow ext d ?n) (extInflow ?n) s1"
      using False j
      by (simp add: addExternalInflows_node_def Let_def q_def s1_def ext_direct_flow_def
          ext_load_flow_def add_newLatFlow_def)
    from ext_qual_loads_effect[of ext d j "ext_load_flow ext d ?n" "extInflow ?n" s1]
    have "trace (ext_qual_loads ext d j (ext_load_flow ext d ?n) (extInflow ?n) s1)
            = trace s1 @ map (ext_load_report ext d (ext_load_flow ext d ?n))
                 (filter (\<lambda>r. ext_type r \<noteq> FLOW_INFLOW) (extInflow ?n))"
      by blast
    with False show ?thesis unfolding eq
      by (simp add: ext_node_reports_def s1_def q_def)
  qed
qed


lemma same_ext_inputs_refl [simp]: "same_ext_inputs n n"
  by (simp add: same_ext_inputs_def)

lemma same_ext_inputs_eqs:
  assumes "same_ext_inputs n n'"
  shows "ext_direct_flow ext d n' = ext_direct_flow ext d n"
    and "ext_node_reports ext d n' = ext_node_reports ext d n"
  using assms
  by (simp_all add: same_ext_inputs_def ext_direct_flow_def ext_node_reports_def ext_load_flow_def)

lemma addExternalInflows_upto:
  assumes "k \<le> Nobjects_NODE s"
  shows "Nobjects_NODE (forS [0..<k] (addExternalInflows_node ext d) s) = Nobjects_NODE s
     \<and> (\<forall>j < Nobjects_NODE s.
          same_ext_inputs (Node (obj s) ! j)
            (Node (obj (forS [0..<k] (addExternalInflows_node ext d) s)) ! j)
          \<and> newLatFlow (Node (obj (forS [0..<k] (addExternalInflows_node ext d) s)) ! j)
              = newLatFlow (Node (obj s) ! j)
                + (if j < k then ext_direct_flow ext d (Node (obj s) ! j) else 0))
     \<and> trace (forS [0..<k] (addExternalInflows_node ext d) s)
          = trace s @ concat (map (ext_node_reports ext d) (take k (Node (obj s))))"
  using assms
proof (induction k)
  case 0
  show ?case by simp
next
  case (Suc k)
  let ?t = "forS [0..<k] (addExternalInflows_node ext d) s"
  let ?t' = "addExternalInflows_node ext d k ?t"
  from Suc have len: "Nobjects_NODE ?t = Nobjects_NODE s"
    and nodes: "\<And>j. j < Nobjects_NODE s \<Longrightarrow>
          same_ext_inputs (Node (obj s) ! j) (Node (obj ?t) ! j)
          \<and> newLatFlow (Node (obj ?t) ! j)
              = newLatFlow (Node (obj s) ! j)
                + (if j < k then ext_direct_flow ext d (Node (obj s) ! j) else 0)"
    and tr: "trace ?t = trace s @ concat (map (ext_node_reports ext d) (take k (Node (obj s))))"
    by simp_all
  have k: "k < Nobjects_NODE ?t" "k < Nobjects_NODE s" using Suc.prems len by simp_all
  have sk: "same_ext_inputs (Node (obj s) ! k) (Node (obj ?t) ! k)"
    and lk: "newLatFlow (Node (obj ?t) ! k) = newLatFlow (Node (obj s) ! k)"
    using nodes[OF k(2)] by simp_all
  from addExternalInflows_node_effect(1)[OF k(1), of ext d] obtain n' where
    n': "Node (obj ?t') = (Node (obj ?t))[k := n']"
    and sn: "same_ext_inputs (Node (obj ?t) ! k) n'"
    and ln: "newLatFlow n' = newLatFlow (Node (obj ?t) ! k) + ext_direct_flow ext d (Node (obj ?t) ! k)"
    by blast
  have tr': "trace ?t' = trace ?t @ ext_node_reports ext d (Node (obj s) ! k)"
    using addExternalInflows_node_effect(2)[OF k(1), of ext d] same_ext_inputs_eqs(2)[OF sk] by simp
  have 1: "Nobjects_NODE ?t' = Nobjects_NODE s" using n' len by simp
  have 2: "same_ext_inputs (Node (obj s) ! j) (Node (obj ?t') ! j)
          \<and> newLatFlow (Node (obj ?t') ! j)
              = newLatFlow (Node (obj s) ! j)
                + (if j < Suc k then ext_direct_flow ext d (Node (obj s) ! j) else 0)"
    if j: "j < Nobjects_NODE s" for j
  proof (cases "j = k")
    case True
    have "same_ext_inputs (Node (obj s) ! k) n'"
      using sk sn by (simp add: same_ext_inputs_def)
    moreover have "newLatFlow n' = newLatFlow (Node (obj s) ! k) + ext_direct_flow ext d (Node (obj s) ! k)"
      using ln lk same_ext_inputs_eqs(1)[OF sk] by simp
    ultimately show ?thesis using True n' k len by simp
  next
    case False
    then have "Node (obj ?t') ! j = Node (obj ?t) ! j" using n' by simp
    with nodes[OF j] False show ?thesis by (simp add: less_Suc_eq)
  qed
  have 3: "trace ?t' = trace s @ concat (map (ext_node_reports ext d) (take (Suc k) (Node (obj s))))"
    using tr tr' k(2) by (simp add: take_Suc_conv_app_nth)
  show ?case unfolding forS_upt_Suc using 1 2 3 by blast
qed

text \<open>
  C1, as amended. addExternalInflows adds to the lateral inflow of every node exactly
  the node's direct external flow of this step (zero below the flow tolerance, and
  zero for a node without external inflow records), whatever the node's type and its
  net inflow of the previous step, and reports that same flow to the ledger. The
  magnitude of the reverse flow through an outfall (a negative \<^verbatim>\<open>oldNetInflow\<close>) is
  added only to the flow by which the node's concentration inflows are multiplied
  to give the mass loads reported for it.
\<close>

theorem addExternalInflows_adds_direct_flow_only:
  "(\<forall>j < Nobjects_NODE s.
       newLatFlow (Node (obj (addExternalInflows ext currentDate s)) ! j)
         = newLatFlow (Node (obj s) ! j) + ext_direct_flow ext currentDate (Node (obj s) ! j))
   \<and> trace (addExternalInflows ext currentDate s)
       = trace s @ concat (map (ext_node_reports ext currentDate) (Node (obj s)))"
  using addExternalInflows_upto[of "Nobjects_NODE s" s ext currentDate]
  by (simp add: addExternalInflows_def)

theorem addExternalInflows_adds_direct_flow_only_witness:
  "newLatFlow (Node (obj (addExternalInflows env_concen 0 sim_backflow)) ! 0) = 0
   \<and> trace (addExternalInflows env_concen 0 sim_backflow)
       = [Massbal_addInflowFlow EXTERNAL_INFLOW 0, Massbal_addInflowQual EXTERNAL_INFLOW 0 15]"
proof -
  have n: "Node (obj sim_backflow) =
     [node0\<lparr>ntype := OUTFALL, oldNetInflow := - 3,
        extInflow := [\<lparr>ext_param = - 1, ext_type = FLOW_INFLOW, ext_series = 0\<rparr>,
                      \<lparr>ext_param = 0, ext_type = CONCEN_INFLOW, ext_series = 1\<rparr>]\<rparr>]"
    and t: "trace sim_backflow = []"
    by (simp_all add: sim_backflow_def sim0_def)
  have d: "ext_direct_flow env_concen 0 (Node (obj sim_backflow) ! 0) = 0"
    by (simp add: n node0_def ext_direct_flow_def env_concen_def env0_def)
  have r: "ext_node_reports env_concen 0 (Node (obj sim_backflow) ! 0)
       = [Massbal_addInflowFlow EXTERNAL_INFLOW 0, Massbal_addInflowQual EXTERNAL_INFLOW 0 15]"
    by (simp add: n node0_def ext_node_reports_def ext_direct_flow_def ext_load_flow_def
        ext_load_report_def env_concen_def env0_def)
  have l: "newLatFlow (Node (obj sim_backflow) ! 0) = 0" by (simp add: n node0_def)
  from addExternalInflows_adds_direct_flow_only[of sim_backflow env_concen 0] d r l
  show ?thesis by (simp add: n t)
qed

text \<open>
  The claim as stated fails: for an outfall with a net inflow of \<open>-3\<close> in the previous
  step and a direct external inflow of zero, the lateral inflow of the node does not
  grow by 3; it stays as it was.
\<close>

theorem addExternalInflows_backflow_counterexample:
  "ntype (Node (obj sim_backflow) ! 0) = OUTFALL
   \<and> oldNetInflow (Node (obj sim_backflow) ! 0) = - 3
   \<and> newLatFlow (Node (obj (addExternalInflows env0 0 sim_backflow)) ! 0)
       - newLatFlow (Node (obj sim_backflow) ! 0) = 0"
  by (simp add: sim_backflow_def sim0_def node0_def env0_def addExternalInflows_def
      addExternalInflows_node_def add_newLatFlow_def add_newQual_def upd_Node_def tell_def Let_def)

subsection \<open>The globals that the procedures leave alone\<close>

lemma only_objects_refl [simp]: "only_objects s s"
  by (simp add: only_objects_def)

lemma only_objectsI: "s' = s\<lparr>obj := ob, trace := tr\<rparr> \<Longrightarrow> only_objects s s'"
  by (simp add: only_objects_def)

lemma only_objectsE:
  assumes "only_objects s s'"
  obtains ob tr where "s' = s\<lparr>obj := ob, trace := tr\<rparr>"
  using assms unfolding only_objects_def by blast

lemma only_objects_trans: "only_objects s t \<Longrightarrow> only_objects t u \<Longrightarrow> only_objects s u"
  by (elim only_objectsE) (simp add: only_objects_def)

lemma only_objects_fields:
  assumes "only_objects s s'"
  shows "Subcatch s' = Subcatch s" "Pollut s' = Pollut s" "swmm_Event s' = swmm_Event s"
    "SortedLinks s' = SortedLinks s" "NextEvent s' = NextEvent s"
    "BetweenEvents s' = BetweenEvents s" "NewRuleTime s' = NewRuleTime s"
    "OldRoutingTime s' = OldRoutingTime s" "NewRoutingTime s' = NewRoutingTime s"
    "OldRunoffTime s' = OldRunoffTime s" "NewRunoffTime s' = NewRunoffTime s"
    "ReportTime s' = ReportTime s" "StartDateTime s' = StartDateTime s"
    "RuleStep s' = RuleStep s" "RouteModel s' = RouteModel s"
    "SkipSteadyState s' = SkipSteadyState s" "SysFlowTol s' = SysFlowTol s"
    "LatFlowTol s' = LatFlowTol s" "IgnoreQuality s' = IgnoreQuality s"
    "RptFlags_flowStats s' = RptFlags_flowStats s" "Fhotstart1_mode s' = Fhotstart1_mode s"
    "Finflows_mode s' = Finflows_mode s" "swmm_Event_rest s' = swmm_Event_rest s"
  using assms by (elim only_objectsE, simp)+

lemma only_objects_tell [simp]: "only_objects s (tell c s)"
  by (simp add: only_objects_def tell_def)

lemma only_objects_invoke [simp]: "only_objects s (invoke c f s)"
  by (simp add: only_objects_def invoke_def)

lemma only_objects_invoke_val [simp]: "only_objects s (snd (invoke_val c f s))"
  by (simp add: only_objects_def invoke_val_def)

lemma only_objects_upd_Node [simp]: "only_objects s (upd_Node j f s)"
  by (simp add: only_objects_def upd_Node_def)

lemma only_objects_obj_update [simp]: "only_objects s (s\<lparr>obj := ob\<rparr>)"
  by (simp add: only_objects_def)

lemma only_objects_step: "only_objects s t \<Longrightarrow> only_objects t u \<Longrightarrow> only_objects s u"
  by (rule only_objects_trans)

lemma forS_only_objects:
  assumes "\<And>j t. only_objects t (f j t)"
  shows "only_objects s (forS js f s)"
proof (induction js arbitrary: s)
  case Nil
  show ?case by simp
next
  case (Cons j js)
  show ?case using assms[of s j] Cons[of "f j s"] by (simp add: only_objects_trans)
qed

lemma forE_only_objects:
  assumes "\<And>j t t'. f j t = Inr t' \<Longrightarrow> only_objects t t'"
    and "forE js f s = Inr s'"
  shows "only_objects s s'"
  using assms(2)
proof (induction js arbitrary: s)
  case Nil
  then show ?case by simp
next
  case (Cons j js)
  from Cons.prems obtain t where t: "f j s = Inr t" and r: "forE js f t = Inr s'"
    by (auto split: sum.splits)
  from assms(1)[OF t] Cons.IH[OF r] show ?case by (rule only_objects_trans)
qed

lemma forE_append:
  "forE (xs @ ys) f s = thenE (forE xs f s) (forE ys f)"
  by (induction xs arbitrary: s) (simp_all add: thenE_def split: sum.splits)

lemma thenE_Inr_iff:
  "thenE m f = Inr y \<longleftrightarrow> (\<exists>x. m = Inr x \<and> f x = Inr y)"
  by (cases m) (simp_all add: thenE_def)

lemma thenE_simps [simp]:
  "thenE (Inl e) f = Inl e"
  "thenE (Inr x) f = f x"
  by (simp_all add: thenE_def)

lemma lookup_Inr_iff:
  "lookup xs k = Inr x \<longleftrightarrow> 0 \<le> k \<and> nat k < length xs \<and> x = xs ! nat k"
  by (auto simp: lookup_def)

lemma lookup_nat [simp]:
  "lookup xs (int j) = (if j < length xs then Inr (xs ! j) else Inl TypeError)"
  by (simp add: lookup_def)

lemma lookup_error: "lookup xs k = Inl e \<Longrightarrow> e = TypeError"
  by (simp add: lookup_def split: if_splits)

subsection \<open>The error latch\<close>

text \<open>
  C7, as amended. Once \<^verbatim>\<open>ErrorCode\<close> is set, every call of routing_execute returns at
  once: the clock is not advanced, no global is changed and no function of another
  module is called. (routing_open, routing_getRoutingStep and routing_close do not
  test \<^verbatim>\<open>ErrorCode\<close> when they are entered.)
\<close>

theorem routing_execute_latched:
  "ErrorCode (obj s) \<noteq> 0 \<Longrightarrow> routing_execute ext routingModel routingStep s = Inr s"
  by (simp add: routing_execute_def)

theorem routing_execute_latched_witness:
  "ErrorCode (obj sim_failed) \<noteq> 0 \<and> routing_execute env0 0 30 sim_failed = Inr sim_failed"
proof -
  have h: "ErrorCode (obj sim_failed) \<noteq> 0" by (simp add: sim_failed_def sim0_def)
  from h routing_execute_latched[OF h, of env0 0 30] show ?thesis by simp
qed

text \<open>
  The claim as stated fails for routing_close and routing_open: with \<^verbatim>\<open>ErrorCode\<close>
  set, routing_close still closes the interface files, the flow routing and the
  treatment system and frees the sorted links, and routing_open still opens them
  and resets \<^verbatim>\<open>NextEvent\<close>.
\<close>

theorem routing_close_open_latched_counterexample:
  "ErrorCode (obj sim_failed) \<noteq> 0
   \<and> trace sim_failed = []
   \<and> trace (routing_close env0 0 sim_failed)
       = [Iface_closeRoutingFiles, Flowrout_close 0, Treatmnt_close, FREE None]
   \<and> NextEvent sim_failed = 1
   \<and> NextEvent (snd (routing_open env0 sim_failed)) = 0
   \<and> trace (snd (routing_open env0 sim_failed))
       = [Treatmnt_open, Iface_openRoutingFiles, Flowrout_init 0, Qualrout_init]"
  by (simp add: sim_failed_def sim0_def env0_def routing_close_def routing_open_def
      invoke_def invoke_val_def tell_def sortEvents_def Let_def)

subsection \<open>routing_getRoutingStep\<close>

lemma rule_step_clip_le:
  "NewRoutingTime s + 1000 * rule_step_clip r s \<le> NewRoutingTime s + 1000 * r"
  by (simp add: rule_step_clip_def Let_def)

text \<open>
  C5, as amended. Let events be configured, the scheduler be between events, the
  network have a link, and the date be monotone in the elapsed time. When a step
  that stays before the start of the next event is on offer (the date of the
  earlier of the next runoff and report times lies after the current date and
  before that start, or the date after the full \<open>fixedStep\<close> lies before it), the step
  that routing_getRoutingStep returns keeps the date of the clock before that
  start. (Otherwise the step is the one of \<^verbatim>\<open>flowrout_getRoutingStep\<close>, which may
  carry the clock past it.)
\<close>

theorem routing_getRoutingStep_before_event:
  assumes mono: "\<And>a b. a \<le> b \<Longrightarrow> getDateTime ext a \<le> getDateTime ext b"
    and links: "0 < Nobjects_LINK s"
    and events: "NextEvent s < NumEvents s" "BetweenEvents s"
    and offer:
      "(getDateTime ext (min (NewRunoffTime s) (ReportTime s)) > getDateTime ext (NewRoutingTime s)
        \<and> getDateTime ext (min (NewRunoffTime s) (ReportTime s))
            < ev_start (swmm_Event s ! NextEvent s))
       \<or> getDateTime ext (NewRoutingTime s + 1000 * fixedStep)
            < ev_start (swmm_Event s ! NextEvent s)"
  shows "\<exists>r. routing_getRoutingStep ext routingModel fixedStep s = Inr r
           \<and> getDateTime ext (NewRoutingTime s + 1000 * r) < ev_start (swmm_Event s ! NextEvent s)"
proof -
  let ?next = "min (NewRunoffTime s) (ReportTime s)"
  let ?start = "ev_start (swmm_Event s ! NextEvent s)"
  let ?A = "getDateTime ext ?next > getDateTime ext (NewRoutingTime s)
            \<and> getDateTime ext ?next < ?start"
  have ne: "swmm_Event s \<noteq> []" using events(1) by auto
  show ?thesis
  proof (cases ?A)
    case True
    define r0 where "r0 = (?next - NewRoutingTime s) / 1000"
    from True have "?next \<noteq> NewRoutingTime s" by auto
    then have r0: "r0 \<noteq> 0" by (simp add: r0_def)
    have b: "between_events_step ext fixedStep s = Inr (Candidate r0)"
      using True events by (simp add: between_events_step_def Let_def r0_def nth_append)
    have res: "routing_getRoutingStep ext routingModel fixedStep s = Inr (rule_step_clip r0 s)"
      using links ne events b r0 by (simp add: routing_getRoutingStep_def)
    have "NewRoutingTime s + 1000 * rule_step_clip r0 s \<le> NewRoutingTime s + 1000 * r0"
      by (rule rule_step_clip_le)
    also have "\<dots> = ?next" by (simp add: r0_def field_simps)
    finally have "getDateTime ext (NewRoutingTime s + 1000 * rule_step_clip r0 s)
                    \<le> getDateTime ext ?next" by (rule mono)
    with True res show ?thesis by auto
  next
    case False
    with offer have B: "getDateTime ext (NewRoutingTime s + 1000 * fixedStep) < ?start" by blast
    have b: "between_events_step ext fixedStep s = Inr (Return fixedStep)"
      using False B events by (auto simp: between_events_step_def Let_def nth_append)
    have "routing_getRoutingStep ext routingModel fixedStep s = Inr fixedStep"
      using links ne events b by (simp add: routing_getRoutingStep_def)
    with B show ?thesis by simp
  qed
qed

theorem routing_getRoutingStep_before_event_witness:
  "routing_getRoutingStep env0 0 5 sim_between = Inr 5
   \<and> getDateTime env0 (NewRoutingTime sim_between + 1000 * 5)
       < ev_start (swmm_Event sim_between ! NextEvent sim_between)"
proof -
  have mono: "\<And>a b. a \<le> b \<Longrightarrow> getDateTime env0 a \<le> getDateTime env0 b"
    by (simp add: env0_def)
  have links: "0 < Nobjects_LINK sim_between"
    and events: "NextEvent sim_between < NumEvents sim_between" "BetweenEvents sim_between"
    by (simp_all add: sim_between_def sim0_def)
  have B: "getDateTime env0 (NewRoutingTime sim_between + 1000 * 5)
            < ev_start (swmm_Event sim_between ! NextEvent sim_between)"
    by (simp add: sim_between_def sim0_def env0_def)
  then have offer: "(getDateTime env0 (min (NewRunoffTime sim_between) (ReportTime sim_between))
          > getDateTime env0 (NewRoutingTime sim_between)
        \<and> getDateTime env0 (min (NewRunoffTime sim_between) (ReportTime sim_between))
            < ev_start (swmm_Event sim_between ! NextEvent sim_between))
       \<or> getDateTime env0 (NewRoutingTime sim_between + 1000 * 5)
            < ev_start (swmm_Event sim_between ! NextEvent sim_between)" by blast
  from routing_getRoutingStep_before_event[of env0 sim_between 5 0, OF mono links events offer]
  obtain r where r: "routing_getRoutingStep env0 0 5 sim_between = Inr r"
    and d: "getDateTime env0 (NewRoutingTime sim_between + 1000 * r)
              < ev_start (swmm_Event sim_between ! NextEvent sim_between)" by blast
  have e: "routing_getRoutingStep env0 0 5 sim_between = Inr 5"
    by (simp add: routing_getRoutingStep_def between_events_step_def sim_between_def sim0_def
        env0_def lookup_def Let_def)
  with r have "r = 5" by simp
  with d e show ?thesis by simp
qed

text \<open>
  The claim as stated fails when no such step is on offer: between events, with the
  next event starting at date 10 and a fixed step of 30 seconds, the step returned
  is the one of \<^verbatim>\<open>flowrout_getRoutingStep\<close> (here \<open>fixedStep\<close>), and it carries the clock
  to date 30.
\<close>

theorem routing_getRoutingStep_past_event_counterexample:
  "0 < NumEvents sim_between \<and> BetweenEvents sim_between
   \<and> routing_getRoutingStep env0 0 30 sim_between = Inr 30
   \<and> ev_start (swmm_Event sim_between ! NextEvent sim_between) = 10
   \<and> getDateTime env0 (NewRoutingTime sim_between + 1000 * 30) = 30"
  by (simp add: routing_getRoutingStep_def between_events_step_def rule_step_clip_def
      sim_between_def sim0_def env0_def link0_def lookup_def Let_def)

subsection \<open>The phases of routing_execute before the events are looked at\<close>

lemma only_objects_begin_step: "only_objects s (begin_step ext dt s)"
proof -
  let ?s1 = "tell (Massbal_updateRoutingTotals (dt / 2)) s"
  let ?s2 = "forS [0..<Nobjects_LINK ?s1]
                 (\<lambda>j. invoke (Link_setTargetSetting j) (link_setTargetSetting ext j)) ?s1"
  have 1: "only_objects s ?s1" by simp
  have "only_objects ?s1 ?s2" by (rule forS_only_objects) simp
  with 1 have 2: "only_objects s ?s2" by (rule only_objects_trans)
  have "only_objects ?s2 (begin_step ext dt s)"
    by (simp add: begin_step_def Let_def)
  with 2 show ?thesis by (rule only_objects_trans)
qed

lemma change_setting_cases:
  "change_setting ext dt cd j (a, s) = Inl e \<Longrightarrow> e = TypeError"
  "change_setting ext dt cd j (a, s) = Inr (a', s') \<Longrightarrow> only_objects s s'"
proof -
  assume "change_setting ext dt cd j (a, s) = Inl e"
  then show "e = TypeError"
    by (auto simp: change_setting_def Let_def split: if_splits)
next
  assume r: "change_setting ext dt cd j (a, s) = Inr (a', s')"
  then have j: "j < Nobjects_LINK s"
    by (auto simp: change_setting_def split: if_splits)
  let ?l = "Link (obj s) ! j"
  let ?s1 = "if targetSetting ?l * setting ?l = 0
             then s\<lparr>obj := (obj s)\<lparr>Link := (Link (obj s))[j := ?l\<lparr>timeLastSet := cd\<rparr>]\<rparr>\<rparr> else s"
  have 1: "only_objects s ?s1" by simp
  from r j have "s' = s \<or> s' = invoke (Link_setSetting j dt) (link_setSetting ext j dt) ?s1"
    by (auto simp: change_setting_def Let_def split: if_splits)
  then show "only_objects s s'"
  proof
    assume "s' = s" then show ?thesis by simp
  next
    assume "s' = invoke (Link_setSetting j dt) (link_setSetting ext j dt) ?s1"
    then have "only_objects ?s1 s'" by (simp only: only_objects_invoke)
    with 1 show ?thesis by (rule only_objects_trans)
  qed
qed

lemma change_settings_loop:
  "forE js (change_setting ext dt cd) (a, s) = Inl e \<Longrightarrow> e = TypeError"
  "forE js (change_setting ext dt cd) (a, s) = Inr (a', s') \<Longrightarrow> only_objects s s'"
proof (induction js arbitrary: a s)
  case Nil
  { case 1 then show ?case by simp }
  { case 2 then show ?case by simp }
next
  case (Cons j js)
  { case 1
    show ?case
    proof (cases "change_setting ext dt cd j (a, s)")
      case (Inl e')
      with 1 change_setting_cases(1)[of ext dt cd j a s e'] show ?thesis by simp
    next
      case (Inr p)
      obtain a1 s1 where p: "p = (a1, s1)" by (cases p)
      with 1 Inr Cons.IH(1)[of a1 s1] show ?thesis by simp
    qed }
  { case 2
    then obtain a1 s1 where st: "change_setting ext dt cd j (a, s) = Inr (a1, s1)"
      and r: "forE js (change_setting ext dt cd) (a1, s1) = Inr (a', s')"
      by (auto split: sum.splits)
    from change_setting_cases(2)[OF st] Cons.IH(2)[OF r] show ?case
      by (rule only_objects_trans) }
qed

lemma change_settings_cases:
  "change_settings ext dt cd s = Inl e \<Longrightarrow> e = TypeError"
  "change_settings ext dt cd s = Inr (a', s') \<Longrightarrow> only_objects s s'"
  unfolding change_settings_def by (rule change_settings_loop; assumption)+

lemma advance_clock_fields [simp]:
  "obj (advance_clock dt s) = obj s"
  "trace (advance_clock dt s) = trace s"
  "swmm_Event (advance_clock dt s) = swmm_Event s"
  "swmm_Event_rest (advance_clock dt s) = swmm_Event_rest s"
  "NextEvent (advance_clock dt s) = NextEvent s"
  "BetweenEvents (advance_clock dt s) = BetweenEvents s"
  "OldRoutingTime (advance_clock dt s) = NewRoutingTime s"
  "NewRoutingTime (advance_clock dt s) = NewRoutingTime s + 1000 * dt"
  "SkipSteadyState (advance_clock dt s) = SkipSteadyState s"
  "SysFlowTol (advance_clock dt s) = SysFlowTol s"
  "LatFlowTol (advance_clock dt s) = LatFlowTol s"
  "RptFlags_flowStats (advance_clock dt s) = RptFlags_flowStats s"
  by (simp_all add: advance_clock_def Let_def)

lemma only_objects_roll_state: "only_objects s (snd (roll_state ext s))"
proof -
  let ?s1 = "tell Massbal_initTimeStepTotals s"
  let ?t = "forS [0..<Nobjects_NODE ?s1]
              (\<lambda>j. invoke (Node_setOldQualState j) (node_setOldQualState ext j)) ?s1"
  let ?u = "forS [0..<Nobjects_LINK ?t]
              (\<lambda>j. invoke (Link_setOldQualState j) (link_setOldQualState ext j)) ?t"
  let ?s2 = "if 0 < Nobjects_POLLUT ?s1 then ?u else ?s1"
  let ?s3 = "invoke (Infil_setInfilFactor (- 1)) (infil_setInfilFactor ext (- 1)) ?s2"
  have 1: "only_objects s ?s1" by simp
  have "only_objects ?s1 ?t" by (rule forS_only_objects) simp
  moreover have "only_objects ?t ?u" by (rule forS_only_objects) simp
  ultimately have "only_objects ?s1 ?u" by (rule only_objects_trans)
  then have "only_objects ?s1 ?s2" by simp
  with 1 have 2: "only_objects s ?s2" by (rule only_objects_trans)
  have "only_objects ?s2 ?s3" by simp
  with 2 have 3: "only_objects s ?s3" by (rule only_objects_trans)
  have "only_objects ?s3 (snd (roll_state ext s))"
    by (simp add: roll_state_def Let_def)
  with 3 show ?thesis by (rule only_objects_trans)
qed

lemma only_objects_end_step: "only_objects s (end_step ext dt n b s)"
  by (simp add: end_step_def Let_def tell_def only_objects_def)

lemma check_events_beyond:
  "0 < NumEvents s \<Longrightarrow> length (swmm_Event s @ swmm_Event_rest s) \<le> NextEvent s
     \<Longrightarrow> check_events cd s = Inl TypeError"
  by (simp add: check_events_def)


lemma NewRoutingTime_begin_step [simp]:
  "NewRoutingTime (begin_step ext dt s) = NewRoutingTime s"
  using only_objects_begin_step[of s ext dt] by (rule only_objects_fields)

text \<open>routing_execute with the latch clear, as the sequence of its phases.\<close>

lemma routing_execute_phases:
  assumes "ErrorCode (obj s) = 0"
  shows "routing_execute ext m dt s =
     thenE (change_settings ext dt (getDateTime ext (NewRoutingTime s)) (begin_step ext dt s))
       (\<lambda>p. thenE (check_events (getDateTime ext (NewRoutingTime s))
                     (snd (roll_state ext (advance_clock dt (snd p)))))
          (\<lambda>s4. thenE (if BetweenEvents s4 = False
                        then route_step ext m dt (getDateTime ext (NewRoutingTime s)) (fst p)
                               (fst (roll_state ext (advance_clock dt (snd p)))) s4
                        else Inr ((1, True), s4))
             (\<lambda>q. Inr (end_step ext dt (fst (fst q)) (snd (fst q)) (snd q)))))"
  using assms by (simp add: routing_execute_def Let_def split_def cong: if_cong)

lemma events_at_check:
  assumes "change_settings ext dt cd (begin_step ext dt s) = Inr p"
  shows "swmm_Event (snd (roll_state ext (advance_clock dt (snd p)))) = swmm_Event s"
    and "NextEvent (snd (roll_state ext (advance_clock dt (snd p)))) = NextEvent s"
    and "BetweenEvents (snd (roll_state ext (advance_clock dt (snd p)))) = BetweenEvents s"
    and "swmm_Event_rest (snd (roll_state ext (advance_clock dt (snd p)))) = swmm_Event_rest s"
proof -
  obtain a s2 where p: "p = (a, s2)" by (cases p)
  have 1: "only_objects s (begin_step ext dt s)" by (rule only_objects_begin_step)
  have 2: "only_objects (begin_step ext dt s) s2"
    using assms unfolding p by (rule change_settings_cases(2))
  have 3: "only_objects (advance_clock dt s2) (snd (roll_state ext (advance_clock dt s2)))"
    by (rule only_objects_roll_state)
  note f1 = only_objects_fields[OF 1] and f2 = only_objects_fields[OF 2]
    and f3 = only_objects_fields[OF 3]
  show "swmm_Event (snd (roll_state ext (advance_clock dt (snd p)))) = swmm_Event s"
    by (simp add: p f3(3) f2(3) f1(3))
  show "NextEvent (snd (roll_state ext (advance_clock dt (snd p)))) = NextEvent s"
    by (simp add: p f3(5) f2(5) f1(5))
  show "BetweenEvents (snd (roll_state ext (advance_clock dt (snd p)))) = BetweenEvents s"
    by (simp add: p f3(6) f2(6) f1(6))
  show "swmm_Event_rest (snd (roll_state ext (advance_clock dt (snd p)))) = swmm_Event_rest s"
    by (simp add: p f3(23) f2(23) f1(23))
qed

lemma routing_execute_beyond:
  assumes "ErrorCode (obj s) = 0" "0 < NumEvents s"
    "length (swmm_Event s @ swmm_Event_rest s) \<le> NextEvent s"
  shows "routing_execute ext m dt s = Inl TypeError"
proof (cases "change_settings ext dt (getDateTime ext (NewRoutingTime s)) (begin_step ext dt s)")
  case (Inl e)
  then have "e = TypeError" by (cases "begin_step ext dt s") (rule change_settings_cases(1))
  with Inl show ?thesis by (simp add: routing_execute_phases[OF assms(1)])
next
  case (Inr p)
  have "check_events (getDateTime ext (NewRoutingTime s))
          (snd (roll_state ext (advance_clock dt (snd p)))) = Inl TypeError"
    using assms(2,3) by (intro check_events_beyond) (simp_all add: events_at_check[OF Inr])
  with Inr show ?thesis by (simp add: routing_execute_phases[OF assms(1)])
qed

lemma between_events_step_cases:
  "between_events_step ext fixedStep s =
     (if NextEvent s < length (swmm_Event s @ swmm_Event_rest s)
      then Inr (case between_events_step ext fixedStep s of Inr c \<Rightarrow> c | Inl e \<Rightarrow> Candidate 0)
      else Inl TypeError)"
  by (simp add: between_events_step_def Let_def)

lemma routing_getRoutingStep_TypeError_iff:
  "routing_getRoutingStep ext m fixedStep s = Inl TypeError
   \<longleftrightarrow> 0 < Nobjects_LINK s \<and> 0 < NumEvents s \<and> BetweenEvents s
       \<and> length (swmm_Event s @ swmm_Event_rest s) \<le> NextEvent s"
proof (cases "0 < Nobjects_LINK s \<and> 0 < NumEvents s \<and> BetweenEvents s")
  case True
  show ?thesis
  proof (cases "NextEvent s < length (swmm_Event s @ swmm_Event_rest s)")
    case True
    from between_events_step_cases[of ext fixedStep s] True
    obtain c where "between_events_step ext fixedStep s = Inr c" by auto
    with \<open>0 < Nobjects_LINK s \<and> 0 < NumEvents s \<and> BetweenEvents s\<close> True show ?thesis
      by (cases c) (simp_all add: routing_getRoutingStep_def)
  next
    case False
    with between_events_step_cases[of ext fixedStep s]
    have "between_events_step ext fixedStep s = Inl TypeError" by auto
    with \<open>0 < Nobjects_LINK s \<and> 0 < NumEvents s \<and> BetweenEvents s\<close> False show ?thesis
      by (simp add: routing_getRoutingStep_def)
  qed
next
  case False
  then show ?thesis by (auto simp: routing_getRoutingStep_def)
qed

lemma routing_execute_last_event:
  assumes latch: "ErrorCode (obj s) = 0"
    and last: "Suc (NextEvent s) = NumEvents s"
    and past: "getDateTime ext (NewRoutingTime s) > ev_end (swmm_Event s ! NextEvent s)"
    and res: "routing_execute ext m dt s = Inr s'"
  shows "NextEvent s' = NumEvents s' \<and> BetweenEvents s'
         \<and> swmm_Event_rest s' = swmm_Event_rest s"
proof -
  let ?cd = "getDateTime ext (NewRoutingTime s)"
  from res obtain p where p: "change_settings ext dt ?cd (begin_step ext dt s) = Inr p"
    unfolding routing_execute_phases[OF latch] by (auto simp: thenE_Inr_iff)
  let ?s3 = "snd (roll_state ext (advance_clock dt (snd p)))"
  note ev = events_at_check[OF p]
  let ?s4 = "?s3\<lparr>BetweenEvents := True, NextEvent := Suc (NextEvent ?s3)\<rparr>"
  have ne: "swmm_Event s \<noteq> []" "NextEvent s < NumEvents s" using last by auto
  have c: "check_events ?cd ?s3 = Inr ?s4"
    using ne past by (simp add: check_events_def ev nth_append)
  have s': "s' = end_step ext dt 1 True ?s4"
    using res unfolding routing_execute_phases[OF latch] by (simp add: p c)
  have "only_objects ?s4 s'" unfolding s' by (rule only_objects_end_step)
  note f = only_objects_fields[OF this]
  show ?thesis using last by (simp add: f(3) f(5) f(6) f(23) ev)
qed

text \<open>
  C10, as amended. With events configured, a call of routing_execute with the error
  latch clear, at a date after the end of the last event, sets \<^verbatim>\<open>NextEvent\<close> to
  \<^verbatim>\<open>NumEvents\<close> and leaves \<^verbatim>\<open>BetweenEvents\<close> true (and the array as it was). No test of
  \<^verbatim>\<open>NextEvent < NumEvents\<close> guards the reading of \<^verbatim>\<open>swmm_Event[NextEvent]\<close>: in
  every state in which the array holds no entry at the index \<^verbatim>\<open>NextEvent\<close>, a
  TypeError is raised by every call of routing_execute with the latch clear; and
  routing_getRoutingStep raises a TypeError exactly when the network has a link,
  events are configured, the scheduler is between events and the array holds no
  entry at the index \<^verbatim>\<open>NextEvent\<close>.
\<close>

theorem event_index_out_of_bounds:
  "(ErrorCode (obj s) = 0 \<and> Suc (NextEvent s) = NumEvents s
      \<and> getDateTime ext (NewRoutingTime s) > ev_end (swmm_Event s ! NextEvent s)
      \<and> routing_execute ext routingModel routingStep s = Inr s'
    \<longrightarrow> NextEvent s' = NumEvents s' \<and> BetweenEvents s'
        \<and> swmm_Event_rest s' = swmm_Event_rest s)
   \<and> (0 < NumEvents s \<and> length (swmm_Event s @ swmm_Event_rest s) \<le> NextEvent s
      \<and> ErrorCode (obj s) = 0
    \<longrightarrow> routing_execute ext routingModel routingStep s = Inl TypeError)
   \<and> (routing_getRoutingStep ext routingModel fixedStep s = Inl TypeError
    \<longleftrightarrow> 0 < Nobjects_LINK s \<and> 0 < NumEvents s \<and> BetweenEvents s
        \<and> length (swmm_Event s @ swmm_Event_rest s) \<le> NextEvent s)"
  using routing_execute_last_event[of s ext routingModel routingStep s']
    routing_execute_beyond[of s ext routingModel routingStep]
    routing_getRoutingStep_TypeError_iff[of ext routingModel fixedStep s]
  by blast


lemmas eval_step =
  routing_execute_def begin_step_def change_settings_def advance_clock_def roll_state_def
  check_events_def end_step_def tell_def invoke_def invoke_val_def lookup_def Let_def
  SECperDAY_def

lemma sim_opened_eq:
  "sim_opened = sim0\<lparr>swmm_Event := [\<lparr>ev_start = 10, ev_end = 20\<rparr>], BetweenEvents := True,
     trace := [Treatmnt_open, Iface_openRoutingFiles, Flowrout_init 0, Qualrout_init]\<rparr>"
  by (simp add: sim_opened_def sim_one_event_def sim0_def env0_def routing_open_def
      sortEvents_def adjust_overlaps_def exchange_sort_def invoke_def invoke_val_def Let_def)

lemma sim_step1_eq:
  "routing_execute env0 0 30 sim_opened = Inr sim_step1"
  "NextEvent sim_step1 = 0" "BetweenEvents sim_step1" "NewRoutingTime sim_step1 = 30000"
  "ErrorCode (obj sim_step1) = 0" "swmm_Event sim_step1 = [\<lparr>ev_start = 10, ev_end = 20\<rparr>]"
  "Link (obj sim_step1) = []" "swmm_Event_rest sim_step1 = []"
  by (simp_all add: sim_step1_def after_step_def sim_opened_eq sim0_def env0_def eval_step)


lemma sim_step2_eq:
  "routing_execute env0 0 30 sim_step1 = Inr sim_step2"
  "NextEvent sim_step2 = 1" "BetweenEvents sim_step2"
  "ErrorCode (obj sim_step2) = 0" "swmm_Event sim_step2 = [\<lparr>ev_start = 10, ev_end = 20\<rparr>]"
  "Link (obj sim_step2) = []" "swmm_Event_rest sim_step2 = []"
  by (simp_all add: sim_step2_def sim_step1_def after_step_def sim_opened_eq sim0_def env0_def
      eval_step)

theorem event_index_out_of_bounds_witness:
  "routing_execute env0 0 30 sim_opened = Inr sim_step1
   \<and> routing_execute env0 0 30 sim_step1 = Inr sim_step2
   \<and> NextEvent sim_step2 = NumEvents sim_step2 \<and> BetweenEvents sim_step2
   \<and> swmm_Event_rest sim_step2 = []
   \<and> routing_execute env0 0 30 sim_step2 = Inl TypeError
   \<and> routing_getRoutingStep env0 0 30 sim_link_events_over = Inl TypeError"
proof -
  have h1: "ErrorCode (obj sim_step1) = 0 \<and> Suc (NextEvent sim_step1) = NumEvents sim_step1
      \<and> getDateTime env0 (NewRoutingTime sim_step1) > ev_end (swmm_Event sim_step1 ! NextEvent sim_step1)
      \<and> routing_execute env0 0 30 sim_step1 = Inr sim_step2"
  proof -
    have "getDateTime env0 30000 = 30" by (simp add: env0_def)
    then show ?thesis by (simp add: sim_step1_eq sim_step2_eq)
  qed
  have h2: "0 < NumEvents sim_step2
      \<and> length (swmm_Event sim_step2 @ swmm_Event_rest sim_step2) \<le> NextEvent sim_step2
      \<and> ErrorCode (obj sim_step2) = 0"
    by (simp add: sim_step2_eq)
  have h3: "0 < Nobjects_LINK sim_link_events_over \<and> 0 < NumEvents sim_link_events_over
      \<and> BetweenEvents sim_link_events_over
      \<and> length (swmm_Event sim_link_events_over @ swmm_Event_rest sim_link_events_over)
          \<le> NextEvent sim_link_events_over"
    by (simp add: sim_link_events_over_def sim_between_def sim0_def)
  from event_index_out_of_bounds[of sim_step1 env0 0 30 sim_step2] h1
  have 1: "NextEvent sim_step2 = NumEvents sim_step2 \<and> BetweenEvents sim_step2
           \<and> swmm_Event_rest sim_step2 = swmm_Event_rest sim_step1" by blast
  from event_index_out_of_bounds[of sim_step2 env0 0 30] h2
  have 2: "routing_execute env0 0 30 sim_step2 = Inl TypeError" by blast
  from event_index_out_of_bounds[of sim_link_events_over env0 0 30 _ 30] h3
  have 3: "routing_getRoutingStep env0 0 30 sim_link_events_over = Inl TypeError" by blast
  from 1 2 3 sim_step1_eq(1) sim_step1_eq(8) sim_step2_eq(1) show ?thesis by simp
qed

text \<open>
  The claim as stated fails for the calls that return before the access: in the
  state reached after the last event, which has no link, routing_getRoutingStep
  returns \<open>fixedStep\<close> and reads no event; and with the error latch set
  routing_execute returns at once. It also fails when the array holds a closing
  entry behind the last event: the step after the last event's end sets
  \<^verbatim>\<open>NextEvent\<close> to \<^verbatim>\<open>NumEvents\<close>, and the calls that follow read that entry and return.
\<close>

lemma sim_closed0_eq:
  "sim_closed0 = sim0\<lparr>swmm_Event := [\<lparr>ev_start = 10, ev_end = 20\<rparr>],
     swmm_Event_rest := [closing_entry], BetweenEvents := True,
     trace := [Treatmnt_open, Iface_openRoutingFiles, Flowrout_init 0, Qualrout_init]\<rparr>"
  by (simp add: sim_closed0_def sim_one_event_def sim0_def env0_def routing_open_def
      sortEvents_def adjust_overlaps_def exchange_sort_def invoke_def invoke_val_def Let_def)

lemma sim_closed_eq:
  "routing_execute env0 0 30 sim_closed0 = Inr sim_closed1"
  "routing_execute env0 0 30 sim_closed1 = Inr sim_closed2"
  "routing_execute env0 0 30 sim_closed2 = Inr sim_closed3"
  "NextEvent sim_closed2 = 1" "NextEvent sim_closed3 = 1"
  "swmm_Event sim_closed2 = [\<lparr>ev_start = 10, ev_end = 20\<rparr>]"
  "swmm_Event sim_closed3 = [\<lparr>ev_start = 10, ev_end = 20\<rparr>]"
  by (simp_all add: sim_closed3_def sim_closed2_def sim_closed1_def after_step_def
      sim_closed0_eq closing_entry_def sim0_def env0_def eval_step)

theorem event_index_not_always_read_counterexample:
  "0 < NumEvents sim_step2 \<and> NextEvent sim_step2 = NumEvents sim_step2
   \<and> routing_getRoutingStep env0 0 30 sim_step2 = Inr 30
   \<and> routing_execute env0 0 30 (sim_step2\<lparr>obj := (obj sim_step2)\<lparr>ErrorCode := 1\<rparr>\<rparr>)
       = Inr (sim_step2\<lparr>obj := (obj sim_step2)\<lparr>ErrorCode := 1\<rparr>\<rparr>)
   \<and> 0 < NumEvents sim_closed2 \<and> NextEvent sim_closed2 = NumEvents sim_closed2
   \<and> routing_execute env0 0 30 sim_closed2 = Inr sim_closed3
   \<and> NextEvent sim_closed3 = NumEvents sim_closed3
   \<and> 0 < Nobjects_LINK sim_link_closed \<and> BetweenEvents sim_link_closed
   \<and> 0 < NumEvents sim_link_closed \<and> NextEvent sim_link_closed = NumEvents sim_link_closed
   \<and> routing_getRoutingStep env0 0 30 sim_link_closed = Inr 30"
proof -
  have "routing_getRoutingStep env0 0 30 sim_link_closed = Inr 30"
    by (simp add: routing_getRoutingStep_def between_events_step_def rule_step_clip_def
        sim_link_closed_def sim_link_events_over_def sim_between_def closing_entry_def
        sim0_def env0_def link0_def lookup_def Let_def)
  moreover have "0 < Nobjects_LINK sim_link_closed \<and> BetweenEvents sim_link_closed
      \<and> 0 < NumEvents sim_link_closed \<and> NextEvent sim_link_closed = NumEvents sim_link_closed"
    by (simp add: sim_link_closed_def sim_link_events_over_def sim_between_def sim0_def)
  moreover have "0 < NumEvents sim_step2 \<and> NextEvent sim_step2 = NumEvents sim_step2
      \<and> routing_getRoutingStep env0 0 30 sim_step2 = Inr 30
      \<and> routing_execute env0 0 30 (sim_step2\<lparr>obj := (obj sim_step2)\<lparr>ErrorCode := 1\<rparr>\<rparr>)
          = Inr (sim_step2\<lparr>obj := (obj sim_step2)\<lparr>ErrorCode := 1\<rparr>\<rparr>)"
    by (simp add: sim_step2_eq routing_getRoutingStep_def routing_execute_def)
  ultimately show ?thesis by (simp add: sim_closed_eq)
qed

subsection \<open>removeOutflows\<close>

lemma route_outfall_effect:
  assumes "route_outfall tStep i s = Inr s1"
  shows "trace s1 = trace s" and "only_objects s s1" and "Node (obj s1) = Node (obj s)"
proof -
  from assms have "s1 = s \<or> (\<exists>k x. s1 = s\<lparr>obj := (obj s)\<lparr>Outfall := (Outfall (obj s))[k := x]\<rparr>\<rparr>)"
    by (auto simp: route_outfall_def thenE_Inr_iff Let_def split: if_splits)
  then show "trace s1 = trace s" and "only_objects s s1" and "Node (obj s1) = Node (obj s)"
    by (auto simp: only_objects_def)
qed

lemma report_loop:
  assumes "forE ps (\<lambda>p s. thenE (lookup (Node (obj s)) (int i)) (\<lambda>n. Inr (tell (c p n) s))) s = Inr s'"
  shows "obj s' = obj s \<and> only_objects s s'
         \<and> trace s' = trace s @ map (\<lambda>p. c p (Node (obj s) ! i)) ps"
  using assms
proof (induction ps arbitrary: s)
  case Nil
  then show ?case by auto
next
  case (Cons p ps)
  let ?t = "tell (c p (Node (obj s) ! i)) s"
  from Cons.prems have i: "i < Nobjects_NODE s"
    by (auto split: sum.splits if_splits)
  with Cons.prems have
    "forE ps (\<lambda>p s. thenE (lookup (Node (obj s)) (int i)) (\<lambda>n. Inr (tell (c p n) s))) ?t = Inr s'"
    by simp
  from Cons.IH[OF this] have 1: "obj s' = obj ?t" and 2: "only_objects ?t s'"
    and 3: "trace s' = trace ?t @ map (\<lambda>p. c p (Node (obj ?t) ! i)) ps" by simp_all
  have "only_objects s s'" using only_objects_tell 2 by (rule only_objects_trans)
  with 1 3 show ?case by simp
qed

lemma report_system_outflow_effect:
  assumes "report_system_outflow i q s = Inr s'"
  shows "obj s' = obj s" and "only_objects s s'"
    and "q > 0 \<Longrightarrow> trace s' = trace s @ Massbal_addOutflowFlow q None
            # map (\<lambda>p. Massbal_addOutflowQual (int p) (q * newQual (Node (obj s) ! i) (int p)) None)
                [0..<Nobjects_POLLUT s]"
    and "\<not> q > 0 \<Longrightarrow> trace s' = trace s @ [Massbal_addInflowFlow EXTERNAL_INFLOW (- q)]"
proof -
  let ?t = "tell (Massbal_addOutflowFlow q None) s"
  have pos: "obj s' = obj s \<and> only_objects s s' \<and> trace s' = trace s @ Massbal_addOutflowFlow q None
            # map (\<lambda>p. Massbal_addOutflowQual (int p) (q * newQual (Node (obj s) ! i) (int p)) None)
                [0..<Nobjects_POLLUT s]" if "q > 0"
  proof -
    from assms that have "forE [0..<Nobjects_POLLUT s]
        (\<lambda>p s. thenE (lookup (Node (obj s)) (int i))
                  (\<lambda>n. Inr (tell (Massbal_addOutflowQual (int p) (q * newQual n (int p)) None) s))) ?t
         = Inr s'"
      by (simp add: report_system_outflow_def)
    from report_loop[OF this] have 1: "obj s' = obj ?t" and 2: "only_objects ?t s'"
      and 3: "trace s' = trace ?t @ map (\<lambda>p. Massbal_addOutflowQual (int p) (q * newQual (Node (obj ?t) ! i) (int p)) None)
                [0..<Nobjects_POLLUT s]" by simp_all
    have "only_objects s s'" using only_objects_tell 2 by (rule only_objects_trans)
    with 1 3 show ?thesis by simp
  qed
  have neg: "s' = tell (Massbal_addInflowFlow EXTERNAL_INFLOW (- q)) s" if "\<not> q > 0"
    using assms that by (simp add: report_system_outflow_def)
  show "obj s' = obj s" using pos neg by (cases "q > 0") auto
  show "only_objects s s'" using pos neg by (cases "q > 0") auto
  show "q > 0 \<Longrightarrow> trace s' = trace s @ Massbal_addOutflowFlow q None
            # map (\<lambda>p. Massbal_addOutflowQual (int p) (q * newQual (Node (obj s) ! i) (int p)) None)
                [0..<Nobjects_POLLUT s]" using pos by simp
  show "\<not> q > 0 \<Longrightarrow> trace s' = trace s @ [Massbal_addInflowFlow EXTERNAL_INFLOW (- q)]"
    using neg by simp
qed

lemma report_lateral_loss_effect:
  assumes "report_lateral_loss i s = Inr s'"
  shows "only_objects s s'
    \<and> trace s' = trace s @ lateral_loss_calls (Node (obj s) ! i) (Nobjects_POLLUT s)"
proof -
  from assms have i: "i < Nobjects_NODE s"
    by (auto simp: report_lateral_loss_def split: if_splits)
  let ?n = "Node (obj s) ! i"
  show ?thesis
  proof (cases "newLatFlow ?n < 0")
    case False
    with assms i have "s' = s" by (simp add: report_lateral_loss_def Let_def)
    with False show ?thesis by (simp add: lateral_loss_calls_def)
  next
    case True
    with assms i have "forE [0..<Nobjects_POLLUT s]
        (\<lambda>p s. thenE (lookup (Node (obj s)) (int i))
                  (\<lambda>n. Inr (tell (Massbal_addOutflowQual (int p) (- newLatFlow ?n * newQual n (int p))
                                   (Some False)) s))) s = Inr s'"
      by (simp add: report_lateral_loss_def Let_def)
    from report_loop[OF this] True show ?thesis
      by (simp add: lateral_loss_calls_def)
  qed
qed


lemma removeOutflows_node_effect:
  assumes "removeOutflows_node ext tStep i s = Inr s'"
  shows "\<exists>s1 q ob calls.
      route_outfall tStep i s = Inr s1 \<and> node_getSystemOutflow ext i s1 = (q, ob)
      \<and> only_objects s s'
      \<and> trace s' = trace s @ Node_getSystemOutflow i # calls
                     @ lateral_loss_calls (Node ob ! i) (Nobjects_POLLUT s)
      \<and> (q > 0 \<longrightarrow> calls = Massbal_addOutflowFlow q None
            # map (\<lambda>p. Massbal_addOutflowQual (int p) (q * newQual (Node ob ! i) (int p)) None)
                [0..<Nobjects_POLLUT s])
      \<and> (q < 0 \<longrightarrow> calls = [Massbal_addInflowFlow EXTERNAL_INFLOW (- q)])"
proof -
  from assms obtain s1 where s1: "route_outfall tStep i s = Inr s1"
    by (auto simp: removeOutflows_node_def thenE_Inr_iff)
  obtain q ob where r: "node_getSystemOutflow ext i s1 = (q, ob)"
    by (cases "node_getSystemOutflow ext i s1")
  define s2 where "s2 = s1\<lparr>obj := ob, trace := trace s1 @ [Node_getSystemOutflow i]\<rparr>"
  from assms s1 r obtain s3 where s3: "report_system_outflow i q s2 = Inr s3"
    and s': "report_lateral_loss i s3 = Inr s'"
    by (auto simp: removeOutflows_node_def thenE_Inr_iff invoke_val_def s2_def)
  note e1 = route_outfall_effect[OF s1]
  note e3 = report_system_outflow_effect[OF s3]
  note e4 = report_lateral_loss_effect[OF s']
  have o2: "only_objects s1 s2" by (simp add: s2_def only_objects_def)
  have oo: "only_objects s s'"
    using e1(2) o2 e3(2) e4 by (blast intro: only_objects_trans)
  have p2: "Nobjects_POLLUT s2 = Nobjects_POLLUT s" "Nobjects_POLLUT s3 = Nobjects_POLLUT s"
    using only_objects_fields(2)[OF e1(2)] only_objects_fields(2)[OF o2]
      only_objects_fields(2)[OF e3(2)] by simp_all
  have t2: "trace s2 = trace s @ [Node_getSystemOutflow i]" "obj s2 = ob" "obj s3 = ob"
    using e1(1) e3(1) by (simp_all add: s2_def)
  define calls where "calls = (if q > 0 then Massbal_addOutflowFlow q None
            # map (\<lambda>p. Massbal_addOutflowQual (int p) (q * newQual (Node ob ! i) (int p)) None)
                [0..<Nobjects_POLLUT s]
          else [Massbal_addInflowFlow EXTERNAL_INFLOW (- q)])"
  have t3: "trace s3 = trace s2 @ calls"
    using e3(3) e3(4) by (cases "q > 0") (simp_all add: calls_def t2 p2)
  have "trace s' = trace s @ Node_getSystemOutflow i # calls
                     @ lateral_loss_calls (Node ob ! i) (Nobjects_POLLUT s)"
    using e4 t3 t2 p2 by simp
  with s1 r oo show ?thesis
    by (intro exI[of _ s1] exI[of _ q] exI[of _ ob] exI[of _ calls]) (simp add: calls_def)
qed

lemma forE_split:
  assumes "forE [0..<n] f s0 = Inr sf" and "i < n"
  shows "\<exists>s s'. forE [0..<i] f s0 = Inr s \<and> f i s = Inr s' \<and> forE [Suc i..<n] f s' = Inr sf"
proof -
  have "[0..<n] = [0..<i] @ i # [Suc i..<n]"
    using assms(2) by (metis less_imp_le_nat upt_add_eq_append upt_conv_Cons le_add_diff_inverse zero_le)
  with assms(1) have "thenE (forE [0..<i] f s0) (forE (i # [Suc i..<n]) f) = Inr sf"
    by (simp add: forE_append)
  then obtain s where s: "forE [0..<i] f s0 = Inr s" and r: "forE (i # [Suc i..<n]) f s = Inr sf"
    by (auto simp: thenE_Inr_iff)
  from r obtain s' where "f i s = Inr s'" "forE [Suc i..<n] f s' = Inr sf"
    by (auto split: sum.splits)
  with s show ?thesis by blast
qed

lemma forE_trace_extends:
  assumes "\<And>j t t'. f j t = Inr t' \<Longrightarrow> \<exists>x. trace t' = trace t @ x"
    and "forE js f s = Inr s'"
  shows "\<exists>x. trace s' = trace s @ x"
  using assms(2)
proof (induction js arbitrary: s)
  case Nil
  then show ?case by simp
next
  case (Cons j js)
  from Cons.prems obtain t where t: "f j s = Inr t" and r: "forE js f t = Inr s'"
    by (auto split: sum.splits)
  from assms(1)[OF t] Cons.IH[OF r] show ?case by auto
qed

lemma removeOutflows_node_only_objects:
  "removeOutflows_node ext tStep i s = Inr s' \<Longrightarrow> only_objects s s'"
  using removeOutflows_node_effect by blast

lemma removeOutflows_node_trace:
  "removeOutflows_node ext tStep i s = Inr s' \<Longrightarrow> \<exists>x. trace s' = trace s @ x"
  using removeOutflows_node_effect[of ext tStep i s s'] by auto


lemma lateral_loss_calls_no_outflow: "\<not> list_ex is_outflow_report (lateral_loss_calls n np)"
  by (simp add: lateral_loss_calls_def list_ex_iff is_outflow_report_def)

text \<open>
  C8. In a run of removeOutflows, let node \<open>i\<close> be queried in the state \<open>s1\<close> (the state
  after the nodes before it and after the node's own routed volume), and let the
  query return the quantity \<open>q\<close>. Then the calls that follow the query in the trace
  are: for \<open>q > 0\<close> the report of the outflow \<open>q\<close> and, for each pollutant \<open>p\<close>, of the
  mass \<open>q * newQual[p]\<close> of the node; for \<open>q < 0\<close> the report of \<open>- q\<close> as an external
  inflow and nothing else, so that no outflow of water is reported in the node's
  part of the trace. (The part ends with the reports of the pollutant mass of a
  negative lateral inflow of the node, which are made for either sign of \<open>q\<close>.)
\<close>

theorem removeOutflows_reports:
  assumes "removeOutflows ext tStep s0 = Inr sf" and "i < Nobjects_NODE s0"
  shows "\<exists>s s1 q ob calls post.
      forE [0..<i] (removeOutflows_node ext tStep) s0 = Inr s
      \<and> route_outfall tStep i s = Inr s1
      \<and> node_getSystemOutflow ext i s1 = (q, ob)
      \<and> trace sf = trace s @ Node_getSystemOutflow i # calls
                     @ lateral_loss_calls (Node ob ! i) (Nobjects_POLLUT s0) @ post
      \<and> (q > 0 \<longrightarrow> calls = Massbal_addOutflowFlow q None
            # map (\<lambda>p. Massbal_addOutflowQual (int p) (q * newQual (Node ob ! i) (int p)) None)
                [0..<Nobjects_POLLUT s0])
      \<and> (q < 0 \<longrightarrow> calls = [Massbal_addInflowFlow EXTERNAL_INFLOW (- q)]
            \<and> \<not> list_ex is_outflow_report
                  (calls @ lateral_loss_calls (Node ob ! i) (Nobjects_POLLUT s0)))"
proof -
  let ?f = "removeOutflows_node ext tStep"
  from assms have "forE [0..<Nobjects_NODE s0] ?f s0 = Inr sf"
    by (simp add: removeOutflows_def)
  from forE_split[OF this assms(2)] obtain s s' where
    pre: "forE [0..<i] ?f s0 = Inr s" and body: "?f i s = Inr s'"
    and rest: "forE [Suc i..<Nobjects_NODE s0] ?f s' = Inr sf"
    by blast
  have "only_objects s0 s"
    using pre by (rule forE_only_objects[rotated]) (rule removeOutflows_node_only_objects)
  then have np: "Nobjects_POLLUT s = Nobjects_POLLUT s0" by (simp add: only_objects_fields)
  from rest obtain post where post: "trace sf = trace s' @ post"
    using forE_trace_extends[of ?f "[Suc i..<Nobjects_NODE s0]" s' sf] removeOutflows_node_trace
    by blast
  from removeOutflows_node_effect[OF body] obtain s1 q ob calls where
    s1: "route_outfall tStep i s = Inr s1" and r: "node_getSystemOutflow ext i s1 = (q, ob)"
    and tr: "trace s' = trace s @ Node_getSystemOutflow i # calls
                     @ lateral_loss_calls (Node ob ! i) (Nobjects_POLLUT s0)"
    and pos: "q > 0 \<longrightarrow> calls = Massbal_addOutflowFlow q None
            # map (\<lambda>p. Massbal_addOutflowQual (int p) (q * newQual (Node ob ! i) (int p)) None)
                [0..<Nobjects_POLLUT s0]"
    and neg: "q < 0 \<longrightarrow> calls = [Massbal_addInflowFlow EXTERNAL_INFLOW (- q)]"
    unfolding np by blast
  have noout: "q < 0 \<longrightarrow> \<not> list_ex is_outflow_report
                  (calls @ lateral_loss_calls (Node ob ! i) (Nobjects_POLLUT s0))"
    using neg lateral_loss_calls_no_outflow[of "Node ob ! i" "Nobjects_POLLUT s0"]
    by (auto simp: is_outflow_report_def)
  have "trace sf = trace s @ Node_getSystemOutflow i # calls
                     @ lateral_loss_calls (Node ob ! i) (Nobjects_POLLUT s0) @ post"
    using post tr by simp
  with pre s1 r pos neg noout show ?thesis by blast
qed

lemma removeOutflows_example:
  "removeOutflows env_outflows 30 sim_outflows = Inr (sim_outflows\<lparr>trace :=
     [Node_getSystemOutflow 0, Massbal_addOutflowFlow 2 None, Massbal_addOutflowQual 0 8 None,
      Node_getSystemOutflow 1, Massbal_addInflowFlow EXTERNAL_INFLOW 3,
      Massbal_addOutflowQual 0 5 (Some False)]\<rparr>)"
  by (simp add: removeOutflows_def removeOutflows_node_def route_outfall_def
      report_system_outflow_def report_lateral_loss_def invoke_val_def tell_def
      env_outflows_def env0_def sim_outflows_def sim0_def node0_def Let_def numeral_2_eq_2
      lookup_def)

theorem removeOutflows_reports_witness:
  "removeOutflows env_outflows 30 sim_outflows = Inr (sim_outflows\<lparr>trace :=
     [Node_getSystemOutflow 0, Massbal_addOutflowFlow 2 None, Massbal_addOutflowQual 0 8 None,
      Node_getSystemOutflow 1, Massbal_addInflowFlow EXTERNAL_INFLOW 3,
      Massbal_addOutflowQual 0 5 (Some False)]\<rparr>)
   \<and> 1 < Nobjects_NODE sim_outflows
   \<and> (\<exists>s s1 ob calls post.
        forE [0..<1] (removeOutflows_node env_outflows 30) sim_outflows = Inr s
        \<and> route_outfall 30 1 s = Inr s1
        \<and> node_getSystemOutflow env_outflows 1 s1 = (- 3, ob)
        \<and> trace (sim_outflows\<lparr>trace :=
             [Node_getSystemOutflow 0, Massbal_addOutflowFlow 2 None, Massbal_addOutflowQual 0 8 None,
              Node_getSystemOutflow 1, Massbal_addInflowFlow EXTERNAL_INFLOW 3,
              Massbal_addOutflowQual 0 5 (Some False)]\<rparr>)
            = trace s @ Node_getSystemOutflow 1 # calls
                @ lateral_loss_calls (Node ob ! 1) (Nobjects_POLLUT sim_outflows) @ post
        \<and> calls = [Massbal_addInflowFlow EXTERNAL_INFLOW 3])"
proof -
  have i: "1 < Nobjects_NODE sim_outflows" by (simp add: sim_outflows_def sim0_def)
  from removeOutflows_reports[OF removeOutflows_example i] obtain s s1 q ob calls post where
    a: "forE [0..<1] (removeOutflows_node env_outflows 30) sim_outflows = Inr s"
    and b: "route_outfall 30 1 s = Inr s1"
    and c: "node_getSystemOutflow env_outflows 1 s1 = (q, ob)"
    and d: "trace (sim_outflows\<lparr>trace :=
             [Node_getSystemOutflow 0, Massbal_addOutflowFlow 2 None, Massbal_addOutflowQual 0 8 None,
              Node_getSystemOutflow 1, Massbal_addInflowFlow EXTERNAL_INFLOW 3,
              Massbal_addOutflowQual 0 5 (Some False)]\<rparr>)
            = trace s @ Node_getSystemOutflow 1 # calls
                @ lateral_loss_calls (Node ob ! 1) (Nobjects_POLLUT sim_outflows) @ post"
    and e: "q < 0 \<longrightarrow> calls = [Massbal_addInflowFlow EXTERNAL_INFLOW (- q)]
            \<and> \<not> list_ex is_outflow_report
                  (calls @ lateral_loss_calls (Node ob ! 1) (Nobjects_POLLUT sim_outflows))"
    by blast
  from c have q: "q = - 3" by (simp add: env_outflows_def)
  with e have "calls = [Massbal_addInflowFlow EXTERNAL_INFLOW 3]" by simp
  with a b c d q i removeOutflows_example show ?thesis by blast
qed

subsection \<open>The elementary steps of the procedures\<close>

lemma step_closed_only_objects: "step_closed only_objects"
  unfolding step_closed_def using only_objects_trans by auto

lemma step_calls_refl [simp]: "step_calls 0 False s s"
  by (simp add: step_calls_def)

lemma step_calls_trans:
  "step_calls n b s t \<Longrightarrow> step_calls m c t u \<Longrightarrow> step_calls (n + m) (b \<or> c) s u"
  by (auto simp: step_calls_def list_ex_iff)

lemma quiet_trans:
  "step_calls 0 False s t \<Longrightarrow> step_calls 0 False t u \<Longrightarrow> step_calls 0 False s u"
  using step_calls_trans[of 0 False s t 0 False u] by simp

lemma step_calls_same_trace: "trace s' = trace s \<Longrightarrow> step_calls 0 False s s'"
  by (simp add: step_calls_def)

lemma step_closed_quiet: "step_closed (step_calls 0 False)"
  unfolding step_closed_def
proof (intro conjI allI impI)
  show "step_calls 0 False s u" if "step_calls 0 False s t" "step_calls 0 False t u" for s t u
    using that by (rule quiet_trans)
qed (simp_all add: step_calls_def quiet_call_def tell_def invoke_def)

lemma sc_refl: "step_closed R \<Longrightarrow> R s s"
  by (simp add: step_closed_def)

lemma sc_trans: "step_closed R \<Longrightarrow> R s t \<Longrightarrow> R t u \<Longrightarrow> R s u"
  unfolding step_closed_def by blast

lemma sc_tell: "step_closed R \<Longrightarrow> quiet_call c \<Longrightarrow> R s (tell c s)"
  by (simp add: step_closed_def)

lemma sc_invoke: "step_closed R \<Longrightarrow> quiet_call c \<Longrightarrow> R s (invoke c f s)"
  by (simp add: step_closed_def)

lemma sc_obj: "step_closed R \<Longrightarrow> R s (s\<lparr>obj := ob\<rparr>)"
  by (simp add: step_closed_def)

lemma sc_invoke_val:
  "step_closed R \<Longrightarrow> quiet_call c \<Longrightarrow> R s (snd (invoke_val c f s))"
proof -
  assume a: "step_closed R" "quiet_call c"
  have "snd (invoke_val c f s) = invoke c (\<lambda>s. snd (f s)) s"
    by (simp add: invoke_val_def invoke_def)
  with a show ?thesis by (simp add: sc_invoke)
qed

lemma sc_upd_Node: "step_closed R \<Longrightarrow> R s (upd_Node j f s)"
  unfolding upd_Node_def by (rule sc_obj)

lemma sc_tell_upd:
  "step_closed R \<Longrightarrow> quiet_call c \<Longrightarrow> R s (tell c (upd_Node j f s))"
  using sc_trans[of R s "upd_Node j f s" "tell c (upd_Node j f s)"] sc_upd_Node sc_tell by blast

lemma sc_forS:
  assumes "step_closed R" and "\<And>j t. R t (f j t)"
  shows "R s (forS js f s)"
proof (induction js arbitrary: s)
  case Nil
  show ?case using assms(1) by (simp add: sc_refl)
next
  case (Cons j js)
  show ?case using sc_trans[OF assms(1) assms(2)[of s j] Cons[of "f j s"]] by simp
qed

lemma sc_forE:
  assumes "step_closed R" and "\<And>j t t'. f j t = Inr t' \<Longrightarrow> R t t'"
    and "forE js f s = Inr s'"
  shows "R s s'"
  using assms(3)
proof (induction js arbitrary: s)
  case Nil
  then show ?case using assms(1) by (simp add: sc_refl)
next
  case (Cons j js)
  from Cons.prems obtain t where t: "f j s = Inr t" and r: "forE js f t = Inr s'"
    by (auto split: sum.splits)
  from sc_trans[OF assms(1) assms(2)[OF t] Cons.IH[OF r]] show ?case .
qed

lemma quiet_calls [simp]:
  "quiet_call (Massbal_updateRoutingTotals x)"
  "quiet_call Massbal_initTimeStepTotals"
  "quiet_call (Massbal_addInflowFlow c q)"
  "quiet_call (Massbal_addInflowQual c p w)"
  "quiet_call (Massbal_addOutflowFlow q b)"
  "quiet_call (Massbal_addOutflowQual p w b)"
  "quiet_call (Massbal_addNodeLosses x y)"
  "quiet_call (Massbal_addLinkLosses x y)"
  "quiet_call (Stats_updateFlowStats x y n fl)"
  "quiet_call (Link_setTargetSetting j)"
  "quiet_call (Controls_evaluate x y z)"
  "quiet_call (Node_setOldQualState j)"
  "quiet_call (Link_setOldQualState j)"
  "quiet_call (Infil_setInfilFactor k)"
  "quiet_call (Node_getLosses j x)"
  "quiet_call (Link_setOldHydState j)"
  "quiet_call (Node_setOldHydState j)"
  "quiet_call (Node_initInflow j x)"
  "quiet_call (Qualrout_execute x)"
  "quiet_call (Node_getSystemOutflow j)"
  by (simp_all add: quiet_call_def is_flowrout_execute_def is_link_setSetting_def)


subsection \<open>The procedures of a step, along a closed relation\<close>

lemma sc_add:
  assumes "step_closed R"
  shows "R s (tell (Massbal_addInflowFlow c q) (add_newLatFlow j q s))"
    and "R s (tell (Massbal_addInflowQual c p w) (add_newQual j p w s))"
  unfolding add_newLatFlow_def add_newQual_def using assms by (simp_all add: sc_tell_upd)

lemma sc_begin_step:
  assumes R: "step_closed R"
  shows "R s (begin_step ext dt s)"
proof -
  let ?s1 = "tell (Massbal_updateRoutingTotals (dt / 2)) s"
  let ?s2 = "forS [0..<Nobjects_LINK ?s1]
                 (\<lambda>j. invoke (Link_setTargetSetting j) (link_setTargetSetting ext j)) ?s1"
  have 1: "R s ?s1" using R by (simp add: sc_tell)
  have "R ?s1 ?s2" using R by (rule sc_forS) (simp add: sc_invoke[OF R])
  with 1 have 2: "R s ?s2" by (rule sc_trans[OF R])
  have "R ?s2 (begin_step ext dt s)"
    using R by (simp add: begin_step_def Let_def sc_refl sc_invoke)
  with 2 show ?thesis by (rule sc_trans[OF R])
qed

lemma sc_roll_state:
  assumes R: "step_closed R"
  shows "R s (snd (roll_state ext s))"
proof -
  let ?s1 = "tell Massbal_initTimeStepTotals s"
  let ?t = "forS [0..<Nobjects_NODE ?s1]
              (\<lambda>j. invoke (Node_setOldQualState j) (node_setOldQualState ext j)) ?s1"
  let ?u = "forS [0..<Nobjects_LINK ?t]
              (\<lambda>j. invoke (Link_setOldQualState j) (link_setOldQualState ext j)) ?t"
  let ?s2 = "if 0 < Nobjects_POLLUT ?s1 then ?u else ?s1"
  let ?s3 = "invoke (Infil_setInfilFactor (- 1)) (infil_setInfilFactor ext (- 1)) ?s2"
  have 1: "R s ?s1" using R by (simp add: sc_tell)
  have "R ?s1 ?t" using R by (rule sc_forS) (simp add: sc_invoke[OF R])
  moreover have "R ?t ?u" using R by (rule sc_forS) (simp add: sc_invoke[OF R])
  ultimately have "R ?s1 ?u" by (rule sc_trans[OF R])
  then have "R ?s1 ?s2" using R by (simp add: sc_refl)
  with 1 have 2: "R s ?s2" by (rule sc_trans[OF R])
  have "R ?s2 ?s3" using R by (simp add: sc_invoke)
  with 2 have 3: "R s ?s3" by (rule sc_trans[OF R])
  have "R ?s3 (snd (roll_state ext s))"
    using R by (simp add: roll_state_def Let_def sc_obj)
  with 3 show ?thesis by (rule sc_trans[OF R])
qed

lemma sc_set_node_losses:
  assumes R: "step_closed R" and r: "set_node_losses ext dt j s = Inr s'"
  shows "R s s'"
proof -
  let ?s1 = "snd (invoke_val (Node_getLosses j dt) (node_getLosses ext j dt) s)"
  have 1: "R s ?s1" using R by (simp add: sc_invoke_val)
  from r have "s' = upd_Node j (\<lambda>n. n\<lparr>losses := fst (node_getLosses ext j dt s)\<rparr>) ?s1"
    by (auto simp: set_node_losses_def invoke_val_def Let_def split: if_splits)
  then have "R ?s1 s'" using R by (simp add: sc_upd_Node)
  with 1 show ?thesis by (rule sc_trans[OF R])
qed

lemma sc_end_step: "step_closed R \<Longrightarrow> R s (end_step ext dt n b s)"
proof -
  assume R: "step_closed R"
  let ?s1 = "tell (Massbal_updateRoutingTotals (dt / 2)) s"
  have 1: "R s ?s1" using R by (simp add: sc_tell)
  have "R ?s1 (end_step ext dt n b s)"
    using R by (simp add: end_step_def Let_def sc_refl sc_tell)
  with 1 show ?thesis by (rule sc_trans[OF R])
qed


lemma sc_ext_qual_loads:
  assumes R: "step_closed R"
  shows "R s (ext_qual_loads ext d j q rs s)"
proof (induction rs arbitrary: s)
  case Nil
  show ?case using R by (simp add: sc_refl)
next
  case (Cons r rs)
  let ?t = "if ext_type r \<noteq> FLOW_INFLOW
        then (let p = ext_param r;
                  w = inflow_getExtInflow ext r d;
                  w = (if ext_type r = CONCEN_INFLOW then w * q else w)
              in tell (Massbal_addInflowQual EXTERNAL_INFLOW p w) (add_newQual j p w s))
        else s"
  have "R s ?t" using R by (simp add: Let_def sc_add sc_refl)
  moreover have "R ?t (ext_qual_loads ext d j q rs ?t)" by (rule Cons.IH)
  ultimately have "R s (ext_qual_loads ext d j q rs ?t)" by (rule sc_trans[OF R])
  then show ?case by (simp only: ext_qual_loads.simps)
qed

lemma sc_addExternalInflows:
  assumes R: "step_closed R"
  shows "R s (addExternalInflows ext d s)"
  unfolding addExternalInflows_def
proof (rule sc_forS[OF R])
  fix j t
  show "R t (addExternalInflows_node ext d j t)"
  proof (cases "extInflow (Node (obj t) ! j) = []")
    case True
    then show ?thesis using R by (simp add: addExternalInflows_node_def sc_refl)
  next
    case False
    define q where "q = (let q = ext_flow_lookup ext d (extInflow (Node (obj t) ! j))
                         in if \<bar>q\<bar> < FLOW_TOL ext then 0 else q)"
    define s1 where "s1 = tell (Massbal_addInflowFlow EXTERNAL_INFLOW q) (add_newLatFlow j q t)"
    define q' where "q' = (if ntype (Node (obj s1) ! j) = OUTFALL \<and> oldNetInflow (Node (obj s1) ! j) < 0
                         then q - oldNetInflow (Node (obj s1) ! j) else q)"
    have 1: "R t s1" unfolding s1_def using R by (rule sc_add)
    have "addExternalInflows_node ext d j t
          = ext_qual_loads ext d j q' (extInflow (Node (obj s1) ! j)) s1"
      using False by (simp add: addExternalInflows_node_def Let_def q_def s1_def q'_def)
    with sc_trans[OF R 1 sc_ext_qual_loads[OF R]] show ?thesis by simp
  qed
qed

lemma sc_addDryWeatherInflows:
  assumes R: "step_closed R" and r: "addDryWeatherInflows ext d s = Inr s'"
  shows "R s s'"
  using r unfolding addDryWeatherInflows_def
proof (rule sc_forE[OF R, rotated])
  fix j t t'
  assume "addDryWeatherInflows_node ext j t = Inr t'"
  then have "t' = t \<or> t' = tell (Massbal_addInflowFlow DRY_WEATHER_INFLOW 0) t"
    unfolding addDryWeatherInflows_node_eq[of ext j t] by (auto split: if_splits)
  then show "R t t'" using R by (auto simp: sc_refl sc_tell)
qed

lemma sc_loads:
  assumes R: "step_closed R"
    and "\<And>p t. \<exists>w. f p t = tell (Massbal_addInflowQual c (int p) w) (add_newQual j (int p) w t)"
  shows "R s (forS ps f s)"
proof (rule sc_forS[OF R])
  fix p t
  from assms(2)[of p t] obtain w where "f p t = tell (Massbal_addInflowQual c (int p) w) (add_newQual j (int p) w t)" ..
  then show "R t (f p t)" using R by (simp add: sc_add)
qed

lemma sc_flow_loads:
  assumes R: "step_closed R"
    and "\<And>p t. \<exists>w. f p t = tell (Massbal_addInflowQual c' (int p) w) (add_newQual j (int p) w t)"
  shows "R s (forS ps f (tell (Massbal_addInflowFlow c q) (add_newLatFlow j q s)))"
  using sc_trans[OF R sc_add(1)[OF R] sc_loads[OF R assms(2)]] .

lemma sc_wet:
  assumes R: "step_closed R" and r: "addWetWeatherInflows_subcatch ext f i s = Inr s'"
  shows "R s s'"
proof (cases "outNode (Subcatch s ! i) \<ge> 0 \<and> nat (outNode (Subcatch s ! i)) < Nobjects_NODE s")
  case False
  with r have "s' = s"
    by (auto simp: addWetWeatherInflows_subcatch_def Let_def split: if_splits)
  then show ?thesis using R by (simp add: sc_refl)
next
  case True
  define j where "j = nat (outNode (Subcatch s ! i))"
  define q where "q = subcatch_getWtdOutflow ext i f"
  define s1 where "s1 = tell (Massbal_addInflowFlow WET_WEATHER_INFLOW q) (add_newLatFlow j q s)"
  have "s' = forS [0..<Nobjects_POLLUT s1] (wet_weather_load ext i f j) s1"
    using r True by (auto simp: addWetWeatherInflows_subcatch_def Let_def j_def q_def s1_def)
  moreover have "R s (forS [0..<Nobjects_POLLUT s1] (wet_weather_load ext i f j) s1)"
    unfolding s1_def
    by (rule sc_flow_loads[OF R, where c' = WET_WEATHER_INFLOW])
       (auto simp: wet_weather_load_def Let_def)
  ultimately show ?thesis by simp
qed

lemma sc_gw:
  assumes R: "step_closed R" and r: "addGroundwaterInflows_subcatch ext f i s = Inr s'"
  shows "R s s'"
proof (cases "groundwater (Subcatch s ! i)")
  case None
  with r show ?thesis using R by (simp add: addGroundwaterInflows_subcatch_def sc_refl)
next
  case (Some gw)
  define q where "q = ((1 - f) * oldFlow gw + f * newFlow gw) * area (Subcatch s ! i)"
  show ?thesis
  proof (cases "gw_node gw \<ge> 0 \<and> \<not> \<bar>q\<bar> < FLOW_TOL ext")
    case False
    with r Some have "s' = s"
      by (auto simp: addGroundwaterInflows_subcatch_def Let_def q_def split: if_splits)
    then show ?thesis using R by (simp add: sc_refl)
  next
    case True
    define j where "j = nat (gw_node gw)"
    define s1 where "s1 = tell (Massbal_addInflowFlow GROUNDWATER_INFLOW q) (add_newLatFlow j q s)"
    from r Some True have j: "j < Nobjects_NODE s"
      by (auto simp: addGroundwaterInflows_subcatch_def Let_def q_def j_def split: if_splits)
    have "s' = (if q > 0 then forS [0..<Nobjects_POLLUT s1] (groundwater_load j q) s1 else s1)"
      using r Some True j
      by (auto simp: addGroundwaterInflows_subcatch_def Let_def q_def j_def s1_def)
    moreover have "R s (forS [0..<Nobjects_POLLUT s1] (groundwater_load j q) s1)"
      unfolding s1_def
      by (rule sc_flow_loads[OF R, where c' = GROUNDWATER_INFLOW])
         (auto simp: groundwater_load_def Let_def)
    moreover have "R s s1" unfolding s1_def using R by (rule sc_add)
    ultimately show ?thesis by simp
  qed
qed

lemma sc_lid_flows:
  assumes R: "step_closed R"
  shows "lid_addDrainInflow_flows kqs s = Inr s' \<Longrightarrow> R s s'"
proof (induction kqs s rule: lid_addDrainInflow_flows.induct)
  case (1 s)
  then show ?case using R by (simp add: sc_refl)
next
  case (2 k q rest s)
  let ?t = "tell (Massbal_addInflowFlow WET_WEATHER_INFLOW q) (add_newLatFlow (nat k) q s)"
  from "2.prems" have ok: "0 \<le> k \<and> nat k < Nobjects_NODE s" and r: "lid_addDrainInflow_flows rest ?t = Inr s'"
    by (auto split: if_splits)
  have "R s ?t" using R by (rule sc_add)
  moreover have "R ?t s'" using "2.IH" ok r by simp
  ultimately show ?case by (rule sc_trans[OF R])
qed

lemma sc_iface:
  assumes R: "step_closed R" and r: "addIfaceInflows_node ext i s = Inr s'"
  shows "R s s'"
proof (cases "iface_getIfaceNode ext i \<ge> 0 \<and> \<not> \<bar>iface_getIfaceFlow ext i\<bar> < FLOW_TOL ext")
  case False
  with r have "s' = s"
    by (auto simp: addIfaceInflows_node_def Let_def split: if_splits)
  then show ?thesis using R by (simp add: sc_refl)
next
  case True
  define j where "j = nat (iface_getIfaceNode ext i)"
  define q where "q = iface_getIfaceFlow ext i"
  define s1 where "s1 = tell (Massbal_addInflowFlow EXTERNAL_INFLOW q) (add_newLatFlow j q s)"
  from r True have j: "j < Nobjects_NODE s"
    by (auto simp: addIfaceInflows_node_def Let_def j_def split: if_splits)
  have "s' = (if q > 0 then forS [0..<Nobjects_POLLUT s1] (iface_load ext i j q) s1 else s1)"
    using r True j
    by (auto simp: addIfaceInflows_node_def Let_def q_def j_def s1_def)
  moreover have "R s (forS [0..<Nobjects_POLLUT s1] (iface_load ext i j q) s1)"
    unfolding s1_def
    by (rule sc_flow_loads[OF R, where c' = EXTERNAL_INFLOW])
       (auto simp: iface_load_def Let_def)
  moreover have "R s s1" unfolding s1_def using R by (rule sc_add)
  ultimately show ?thesis by simp
qed

lemma sc_runoff_loop:
  assumes R: "step_closed R"
    and body: "\<And>f j t t'. g f j t = Inr t' \<Longrightarrow> R t t'"
    and r: "(if Nobjects_SUBCATCH s = 0 then Inr s
             else thenE (runoff_fraction rt s) (\<lambda>f. forE [0..<Nobjects_SUBCATCH s] (g f) s)) = Inr s'"
  shows "R s s'"
proof (cases "Nobjects_SUBCATCH s = 0")
  case True
  with r show ?thesis using R by (simp add: sc_refl)
next
  case False
  with r obtain f where "forE [0..<Nobjects_SUBCATCH s] (g f) s = Inr s'"
    by (auto simp: thenE_Inr_iff)
  then show ?thesis by (rule sc_forE[OF R, rotated]) (rule body)
qed

lemma sc_aggregate_inflows:
  assumes R: "step_closed R" and r: "aggregate_inflows ext d s = Inr s'"
  shows "R s s'"
proof -
  from r obtain s2 s3 s4 s5 s6 where
    1: "addDryWeatherInflows ext d (addExternalInflows ext d s) = Inr s2"
    and 2: "addWetWeatherInflows ext (OldRoutingTime s2) s2 = Inr s3"
    and 3: "addGroundwaterInflows ext (OldRoutingTime s3) s3 = Inr s4"
    and 4: "addLidDrainInflows ext (OldRoutingTime s4) s4 = Inr s5"
    and 5: "addRdiiInflows ext d s5 = Inr s6"
    and 6: "addIfaceInflows ext d s6 = Inr s'"
    unfolding aggregate_inflows_def by (auto simp: thenE_Inr_iff)
  have "R s s2"
    using sc_addExternalInflows[OF R] sc_addDryWeatherInflows[OF R 1] by (rule sc_trans[OF R])
  moreover have "R s2 s3"
    using 2 unfolding addWetWeatherInflows_def
    by (rule sc_runoff_loop[OF R, rotated]) (rule sc_wet[OF R])
  moreover have "R s3 s4"
    using 3 unfolding addGroundwaterInflows_def
    by (rule sc_runoff_loop[OF R, rotated]) (rule sc_gw[OF R])
  moreover have "R s4 s5"
    using 4 unfolding addLidDrainInflows_def
    by (rule sc_runoff_loop[OF R, rotated])
       (auto simp: lid_addDrainInflow_def sc_refl[OF R] sc_lid_flows[OF R] split: if_splits)
  moreover have "R s5 s6"
    using 5 R by (auto simp: addRdiiInflows_def sc_refl split: if_splits)
  moreover have "R s6 s'"
  proof (cases "Finflows_mode s6 \<noteq> USE_FILE")
    case True
    with 6 show ?thesis using R by (simp add: addIfaceInflows_def sc_refl)
  next
    case False
    with 6 have "forE [0..<nat (iface_getNumIfaceNodes ext d)] (addIfaceInflows_node ext) s6 = Inr s'"
      by (simp add: addIfaceInflows_def)
    then show ?thesis by (rule sc_forE[OF R, rotated]) (rule sc_iface[OF R])
  qed
  ultimately show ?thesis using sc_trans[OF R] by blast
qed


lemma sc_removeStorageLosses:
  assumes R: "step_closed R" and r: "removeStorageLosses tStep s = Inr s'"
  shows "R s s'"
proof -
  from r obtain x y where "s' = tell (Massbal_addNodeLosses x y) s"
    by (auto simp: removeStorageLosses_def thenE_Inr_iff split: if_splits)
  then show ?thesis using R by (simp add: sc_tell)
qed

lemma sc_removeConduitLosses:
  assumes R: "step_closed R" and r: "removeConduitLosses s = Inr s'"
  shows "R s s'"
proof -
  from r obtain x y where "s' = tell (Massbal_addLinkLosses x y) s"
    by (auto simp: removeConduitLosses_def thenE_Inr_iff)
  then show ?thesis using R by (simp add: sc_tell)
qed

lemma sc_report_loop:
  assumes R: "step_closed R" and c: "\<And>p n. quiet_call (c p n)"
    and r: "forE ps (\<lambda>p s. thenE (lookup (Node (obj s)) (int i)) (\<lambda>n. Inr (tell (c p n) s))) s = Inr s'"
  shows "R s s'"
  using r
proof (rule sc_forE[OF R, rotated])
  fix p t t'
  assume "thenE (lookup (Node (obj t)) (int i)) (\<lambda>n. Inr (tell (c p n) t)) = Inr t'"
  then obtain n where "t' = tell (c p n) t" by (auto simp: thenE_Inr_iff)
  then show "R t t'" using R c by (simp add: sc_tell)
qed

lemma sc_removeOutflows_node:
  assumes R: "step_closed R" and r: "removeOutflows_node ext tStep i s = Inr s'"
  shows "R s s'"
proof -
  from r obtain s1 where s1: "route_outfall tStep i s = Inr s1"
    by (auto simp: removeOutflows_node_def thenE_Inr_iff)
  obtain q ob where q: "node_getSystemOutflow ext i s1 = (q, ob)"
    by (cases "node_getSystemOutflow ext i s1")
  define s2 where "s2 = snd (invoke_val (Node_getSystemOutflow i) (node_getSystemOutflow ext i) s1)"
  from r s1 q obtain s3 where s3: "report_system_outflow i q s2 = Inr s3"
    and s': "report_lateral_loss i s3 = Inr s'"
    by (auto simp: removeOutflows_node_def thenE_Inr_iff invoke_val_def s2_def)
  from s1 have "s1 = s \<or> (\<exists>k x. s1 = s\<lparr>obj := (obj s)\<lparr>Outfall := (Outfall (obj s))[k := x]\<rparr>\<rparr>)"
    by (auto simp: route_outfall_def thenE_Inr_iff Let_def split: if_splits)
  then have 1: "R s s1" using R by (auto simp: sc_refl sc_obj)
  have 2: "R s1 s2" unfolding s2_def using R by (simp add: sc_invoke_val)
  have 3: "R s2 s3"
  proof (cases "q > 0")
    case True
    with s3 have "forE [0..<Nobjects_POLLUT s2]
        (\<lambda>p s. thenE (lookup (Node (obj s)) (int i))
                  (\<lambda>n. Inr (tell (Massbal_addOutflowQual (int p) (q * newQual n (int p)) None) s)))
        (tell (Massbal_addOutflowFlow q None) s2) = Inr s3"
      by (simp add: report_system_outflow_def)
    then have "R (tell (Massbal_addOutflowFlow q None) s2) s3"
      by (rule sc_report_loop[OF R, rotated]) simp
    with sc_tell[OF R, of "Massbal_addOutflowFlow q None" s2] show ?thesis
      by (simp add: sc_trans[OF R])
  next
    case False
    with s3 have "s3 = tell (Massbal_addInflowFlow EXTERNAL_INFLOW (- q)) s2"
      by (simp add: report_system_outflow_def)
    then show ?thesis using R by (simp add: sc_tell)
  qed
  have 4: "R s3 s'"
  proof (cases "newLatFlow (Node (obj s3) ! i) < 0")
    case True
    from s' have i: "i < Nobjects_NODE s3"
      by (auto simp: report_lateral_loss_def split: if_splits)
    with s' True have "forE [0..<Nobjects_POLLUT s3]
        (\<lambda>p s. thenE (lookup (Node (obj s)) (int i))
                  (\<lambda>n. Inr (tell (Massbal_addOutflowQual (int p)
                     (- newLatFlow (Node (obj s3) ! i) * newQual n (int p)) (Some False)) s))) s3 = Inr s'"
      by (simp add: report_lateral_loss_def Let_def)
    then show ?thesis by (rule sc_report_loop[OF R, rotated]) simp
  next
    case False
    with s' have "s' = s3"
      by (auto simp: report_lateral_loss_def Let_def split: if_splits)
    then show ?thesis using R by (simp add: sc_refl)
  qed
  from 1 2 3 4 show ?thesis using sc_trans[OF R] by blast
qed

lemma sc_removeOutflows:
  assumes R: "step_closed R" and r: "removeOutflows ext tStep s = Inr s'"
  shows "R s s'"
  using r unfolding removeOutflows_def
  by (rule sc_forE[OF R, rotated]) (rule sc_removeOutflows_node[OF R])

subsection \<open>The calls of the phases of routing_execute\<close>

lemma change_setting_calls:
  assumes r: "change_setting ext dt cd j (a, s) = Inr (a', s')"
  shows "a \<le> a' \<and> step_calls (a' - a) False s s'"
proof -
  from r have j: "j < Nobjects_LINK s"
    by (auto simp: change_setting_def split: if_splits)
  let ?l = "Link (obj s) ! j"
  let ?s1 = "if targetSetting ?l * setting ?l = 0
             then s\<lparr>obj := (obj s)\<lparr>Link := (Link (obj s))[j := ?l\<lparr>timeLastSet := cd\<rparr>]\<rparr>\<rparr> else s"
  from r j have "(a' = a \<and> s' = s)
      \<or> (a' = Suc a \<and> s' = invoke (Link_setSetting j dt) (link_setSetting ext j dt) ?s1)"
    by (auto simp: change_setting_def Let_def split: if_splits)
  then show ?thesis
  proof
    assume "a' = a \<and> s' = s" then show ?thesis by simp
  next
    assume e: "a' = Suc a \<and> s' = invoke (Link_setSetting j dt) (link_setSetting ext j dt) ?s1"
    have "trace s' = trace s @ [Link_setSetting j dt]"
      using e by (simp add: invoke_def)
    then have "step_calls 1 False s s'"
      unfolding step_calls_def
      by (intro exI[of _ "[Link_setSetting j dt]"])
         (simp add: is_link_setSetting_def is_flowrout_execute_def)
    with e show ?thesis by simp
  qed
qed

lemma change_settings_loop_calls:
  "forE js (change_setting ext dt cd) (a, s) = Inr (a', s')
     \<Longrightarrow> a \<le> a' \<and> step_calls (a' - a) False s s'"
proof (induction js arbitrary: a s)
  case Nil
  then show ?case by simp
next
  case (Cons j js)
  then obtain a1 s1 where st: "change_setting ext dt cd j (a, s) = Inr (a1, s1)"
    and r: "forE js (change_setting ext dt cd) (a1, s1) = Inr (a', s')"
    by (auto split: sum.splits)
  from change_setting_calls[OF st] have 1: "a \<le> a1" "step_calls (a1 - a) False s s1" by simp_all
  from Cons.IH[OF r] have 2: "a1 \<le> a'" "step_calls (a' - a1) False s1 s'" by simp_all
  from step_calls_trans[OF 1(2) 2(2)] 1(1) 2(1) show ?case by simp
qed

lemma change_settings_calls:
  "change_settings ext dt cd s = Inr (a', s') \<Longrightarrow> step_calls a' False s s'"
  unfolding change_settings_def using change_settings_loop_calls[of _ ext dt cd 0 s a' s'] by simp

lemma route_flows_eq:
  "route_flows ext m dt s =
     (if 0 < Nobjects_LINK (old_hyd_state ext dt s)
      then invoke_val (Flowrout_execute (SortedLinks (old_hyd_state ext dt s)) m dt)
             (flowrout_execute ext (SortedLinks (old_hyd_state ext dt s)) m dt)
             (old_hyd_state ext dt s)
      else (1, old_hyd_state ext dt s))"
  by (simp add: route_flows_def Let_def)

lemma sc_old_hyd_state:
  assumes R: "step_closed R"
  shows "R s (old_hyd_state ext dt s)"
proof -
  let ?s1 = "forS [0..<Nobjects_LINK s]
                 (\<lambda>j. invoke (Link_setOldHydState j) (link_setOldHydState ext j)) s"
  have 1: "R s ?s1" using R by (rule sc_forS) (simp add: sc_invoke[OF R])
  have "R ?s1 (old_hyd_state ext dt s)"
    unfolding old_hyd_state_def Let_def
  proof (rule sc_forS[OF R])
    fix j t
    let ?t = "invoke (Node_setOldHydState j) (node_setOldHydState ext j) t"
    have "R t ?t" by (rule sc_invoke[OF R]) simp
    moreover have "R ?t (invoke (Node_initInflow j dt) (node_initInflow ext j dt) ?t)"
      by (rule sc_invoke[OF R]) simp
    ultimately show "R t (invoke (Node_initInflow j dt) (node_initInflow ext j dt) ?t)"
      by (rule sc_trans[OF R])
  qed
  with 1 show ?thesis by (rule sc_trans[OF R])
qed

lemma route_flows_calls:
  "step_calls 0 (0 < Nobjects_LINK (old_hyd_state ext dt s)) s (snd (route_flows ext m dt s))"
proof -
  let ?t = "old_hyd_state ext dt s"
  have 1: "step_calls 0 False s ?t" by (rule sc_old_hyd_state[OF step_closed_quiet])
  have 2: "step_calls 0 (0 < Nobjects_LINK ?t) ?t (snd (route_flows ext m dt s))"
  proof (cases "0 < Nobjects_LINK ?t")
    case True
    then have "trace (snd (route_flows ext m dt s))
                 = trace ?t @ [Flowrout_execute (SortedLinks ?t) m dt]"
      by (simp add: route_flows_eq invoke_val_def)
    then show ?thesis
      unfolding step_calls_def using True
      by (intro exI[of _ "[Flowrout_execute (SortedLinks ?t) m dt]"])
         (simp add: is_link_setSetting_def is_flowrout_execute_def)
  next
    case False
    then show ?thesis by (simp add: route_flows_eq)
  qed
  from step_calls_trans[OF 1 2] show ?thesis by simp
qed

lemma only_objects_route_flows: "only_objects s (snd (route_flows ext m dt s))"
proof -
  have "only_objects s (old_hyd_state ext dt s)"
    by (rule sc_old_hyd_state[OF step_closed_only_objects])
  moreover have "only_objects (old_hyd_state ext dt s) (snd (route_flows ext m dt s))"
    by (simp add: route_flows_eq)
  ultimately show ?thesis by (rule only_objects_trans)
qed

text \<open>
  The part of the step between the events and the second half step of the ledger:
  the state after the aggregation, the flag, and the calls.
\<close>

lemma route_step_parts:
  assumes r: "route_step ext m dt cd ac sfe s4 = Inr ((stepCount, flag), s7)"
  shows "\<exists>s5 s6. forE [0..<Nobjects_NODE s4] (set_node_losses ext dt) s4 = Inr s5
           \<and> aggregate_inflows ext cd s5 = Inr s6
           \<and> only_objects s4 s6 \<and> only_objects s4 s7
           \<and> flag = steady_state_test ext ac sfe s6
           \<and> step_calls 0 (\<not> flag \<and> 0 < Nobjects_LINK (old_hyd_state ext dt s6)) s4 s7"
proof -
  from r obtain s5 s6 where
    s5: "forE [0..<Nobjects_NODE s4] (set_node_losses ext dt) s4 = Inr s5"
    and s6: "aggregate_inflows ext cd s5 = Inr s6"
    by (auto simp: route_step_def thenE_Inr_iff)
  define fl where "fl = steady_state_test ext ac sfe s6"
  define p where "p = (if fl = False then route_flows ext m dt s6 else (1, s6))"
  define s8 where "s8 = (if 0 < Nobjects_POLLUT (snd p) \<and> \<not> IgnoreQuality (snd p)
                        then invoke (Qualrout_execute dt) (qualrout_execute ext dt) (snd p)
                        else snd p)"
  have eq: "route_step ext m dt cd ac sfe s4 =
      thenE (removeStorageLosses dt s8)
        (\<lambda>s9. thenE (removeConduitLosses s9)
        (\<lambda>s10. thenE (removeOutflows ext dt s10)
        (\<lambda>s7. Inr ((fst p, fl), s7))))"
    using s5 s6 unfolding p_def s8_def fl_def
    by (simp add: route_step_def Let_def split_def)
  from r obtain s9 s10 where
    s9: "removeStorageLosses dt s8 = Inr s9" and s10: "removeConduitLosses s9 = Inr s10"
    and s7: "removeOutflows ext dt s10 = Inr s7" and flag: "flag = fl"
    unfolding eq by (auto simp: thenE_Inr_iff)
  have all: "R s4 s5 \<and> R s5 s6 \<and> R (snd p) s8 \<and> R s8 s9 \<and> R s9 s10 \<and> R s10 s7"
    if R: "step_closed R" for R
  proof -
    have 1: "R s4 s5"
      using s5 by (rule sc_forE[OF R, rotated]) (rule sc_set_node_losses[OF R])
    have 2: "R s5 s6" using s6 by (rule sc_aggregate_inflows[OF R])
    have 4: "R (snd p) s8" using R by (simp add: s8_def sc_refl sc_invoke)
    have 5: "R s8 s9" using s9 by (rule sc_removeStorageLosses[OF R])
    have 6: "R s9 s10" using s10 by (rule sc_removeConduitLosses[OF R])
    have 7: "R s10 s7" using s7 by (rule sc_removeOutflows[OF R])
    from 1 2 4 5 6 7 show ?thesis by blast
  qed
  note oo = all[OF step_closed_only_objects] and qq = all[OF step_closed_quiet]
  have oo46: "only_objects s4 s6" using oo by (blast intro: only_objects_trans)
  have oo6p: "only_objects s6 (snd p)"
    using only_objects_route_flows[of s6 ext m dt] by (simp add: p_def)
  have oo47: "only_objects s4 s7" using oo oo6p by (blast intro: only_objects_trans)
  have q46: "step_calls 0 False s4 s6" using qq by (blast intro: quiet_trans)
  have qp7: "step_calls 0 False (snd p) s7" using qq by (blast intro: quiet_trans)
  have q6p: "step_calls 0 (\<not> fl \<and> 0 < Nobjects_LINK (old_hyd_state ext dt s6)) s6 (snd p)"
    using route_flows_calls[of ext dt s6 m] by (simp add: p_def)
  from step_calls_trans[OF step_calls_trans[OF q46 q6p] qp7]
  have "step_calls 0 (\<not> fl \<and> 0 < Nobjects_LINK (old_hyd_state ext dt s6)) s4 s7" by simp
  with s5 s6 oo46 oo47 flag show ?thesis by (auto simp: fl_def)
qed

lemma check_events_fields:
  assumes "check_events cd s = Inr s'"
  shows "trace s' = trace s" "OldRoutingTime s' = OldRoutingTime s"
    "SkipSteadyState s' = SkipSteadyState s" "SysFlowTol s' = SysFlowTol s"
    "RptFlags_flowStats s' = RptFlags_flowStats s"
  using assms by (auto simp: check_events_def thenE_Inr_iff split: if_splits)

lemma fst_roll_state: "fst (roll_state ext s) = massbal_getStepFlowError ext s"
  by (simp add: roll_state_def Let_def)

lemma end_step_calls:
  "\<exists>e. trace (end_step ext dt n b s) = trace s @ e \<and> list_all quiet_call e
       \<and> (RptFlags_flowStats s \<and> 0 < Nobjects_LINK s
            \<longrightarrow> e \<noteq> [] \<and> last e = Stats_updateFlowStats dt (getDateTime ext (NewRoutingTime s)) n b)"
  by (simp add: end_step_def Let_def tell_def)

lemma quiet_calls_not:
  "list_all quiet_call e \<Longrightarrow> filter is_link_setSetting e = [] \<and> \<not> list_ex is_flowrout_execute e"
  by (induction e) (auto simp: quiet_call_def)

lemma obj_end_step [simp]: "obj (end_step ext dt n b s) = obj s"
  by (simp add: end_step_def Let_def tell_def)

text \<open>
  C2. Let the steady state option be on, and let a call of routing_execute (with
  the error latch clear) return in a state that is not between events. Let \<open>x\<close> be
  the calls that routing_execute made, \<open>actionCount\<close> the number of link settings
  that it changed (the calls of \<^verbatim>\<open>link_setSetting\<close> in \<open>x\<close>), the flow balance error
  the one sampled after the clock was advanced, and \<open>s6\<close> the state after the
  inflows were added. Then routing_execute treats the step as a steady state
  exactly when none of these holds: the elapsed routing time before the step is
  zero; \<open>actionCount > 0\<close>; the absolute flow balance error exceeds \<^verbatim>\<open>SysFlowTol\<close>;
  inflowHasChanged is true in \<open>s6\<close>. How it treats the step shows in its calls: the
  solver \<^verbatim>\<open>flowrout_execute\<close> is called exactly when the step is not a steady state
  (and the network has a link when the old hydraulic state has been set), and the
  flag it reports to \<^verbatim>\<open>stats_updateFlowStats\<close>, the last call when flow statistics
  are reported for a network with a link, is the steady state.
\<close>

theorem routing_execute_steady_state:
  assumes latch: "ErrorCode (obj s) = 0" and skip: "SkipSteadyState s"
    and res: "routing_execute ext routingModel routingStep s = Inr s'"
    and inev: "\<not> BetweenEvents s'"
  shows "\<exists>actionCount s2 s4 s5 s6 inSteadyState x.
      change_settings ext routingStep (getDateTime ext (NewRoutingTime s))
          (begin_step ext routingStep s) = Inr (actionCount, s2)
    \<and> check_events (getDateTime ext (NewRoutingTime s))
          (snd (roll_state ext (advance_clock routingStep s2))) = Inr s4
    \<and> forE [0..<Nobjects_NODE s4] (set_node_losses ext routingStep) s4 = Inr s5
    \<and> aggregate_inflows ext (getDateTime ext (NewRoutingTime s)) s5 = Inr s6
    \<and> trace s' = trace s @ x
    \<and> actionCount = length (filter is_link_setSetting x)
    \<and> (inSteadyState
        \<longleftrightarrow> \<not> (NewRoutingTime s = 0 \<or> actionCount > 0
                \<or> \<bar>massbal_getStepFlowError ext (advance_clock routingStep s2)\<bar> > SysFlowTol s
                \<or> inflowHasChanged ext s6))
    \<and> (list_ex is_flowrout_execute x
        \<longleftrightarrow> \<not> inSteadyState \<and> 0 < Nobjects_LINK (old_hyd_state ext routingStep s6))
    \<and> (RptFlags_flowStats s \<and> 0 < Nobjects_LINK s'
        \<longrightarrow> (\<exists>stepCount. last x = Stats_updateFlowStats routingStep
                (getDateTime ext (NewRoutingTime s')) stepCount inSteadyState))"
proof -
  let ?cd = "getDateTime ext (NewRoutingTime s)"
  from res obtain p where p: "change_settings ext routingStep ?cd (begin_step ext routingStep s) = Inr p"
    unfolding routing_execute_phases[OF latch] by (auto simp: thenE_Inr_iff)
  obtain ac s2 where ps: "p = (ac, s2)" by (cases p)
  let ?s3 = "snd (roll_state ext (advance_clock routingStep s2))"
  let ?sfe = "massbal_getStepFlowError ext (advance_clock routingStep s2)"
  have eq: "routing_execute ext routingModel routingStep s =
      thenE (check_events ?cd ?s3)
        (\<lambda>s4. thenE (if BetweenEvents s4 = False
                      then route_step ext routingModel routingStep ?cd ac ?sfe s4
                      else Inr ((1, True), s4))
           (\<lambda>q. Inr (end_step ext routingStep (fst (fst q)) (snd (fst q)) (snd q))))"
    unfolding routing_execute_phases[OF latch] p ps by (simp add: fst_roll_state cong: if_cong)
  from res obtain s4 where s4: "check_events ?cd ?s3 = Inr s4"
    and r4: "thenE (if BetweenEvents s4 = False
                      then route_step ext routingModel routingStep ?cd ac ?sfe s4
                      else Inr ((1, True), s4))
           (\<lambda>q. Inr (end_step ext routingStep (fst (fst q)) (snd (fst q)) (snd q))) = Inr s'"
    unfolding eq thenE_Inr_iff[of "check_events ?cd ?s3"] by blast
  from r4 obtain q where q: "(if BetweenEvents s4 = False
             then route_step ext routingModel routingStep ?cd ac ?sfe s4
             else Inr ((1, True), s4)) = Inr q"
    and s': "s' = end_step ext routingStep (fst (fst q)) (snd (fst q)) (snd q)"
    unfolding thenE_Inr_iff by blast
  obtain stepCount flag s7 where qs: "q = ((stepCount, flag), s7)" by (cases q) auto
  have oo_end: "only_objects s7 s'" unfolding s' qs by (simp add: only_objects_end_step)
  have b4: "BetweenEvents s4 = False"
  proof (rule ccontr)
    assume "BetweenEvents s4 \<noteq> False"
    with q qs have "s7 = s4" by simp
    with oo_end \<open>BetweenEvents s4 \<noteq> False\<close> inev show False
      by (simp add: only_objects_fields)
  qed
  with q qs have rs: "route_step ext routingModel routingStep ?cd ac ?sfe s4
                        = Inr ((stepCount, flag), s7)" by simp
  from route_step_parts[OF rs] obtain s5 s6 where
    s5: "forE [0..<Nobjects_NODE s4] (set_node_losses ext routingStep) s4 = Inr s5"
    and s6: "aggregate_inflows ext ?cd s5 = Inr s6"
    and oo46: "only_objects s4 s6" and oo47: "only_objects s4 s7"
    and flag: "flag = steady_state_test ext ac ?sfe s6"
    and c47: "step_calls 0 (\<not> flag \<and> 0 < Nobjects_LINK (old_hyd_state ext routingStep s6)) s4 s7"
    by blast
  have oo1: "only_objects s (begin_step ext routingStep s)" by (rule only_objects_begin_step)
  have oo2: "only_objects (begin_step ext routingStep s) s2"
    using p unfolding ps by (rule change_settings_cases(2))
  have oo3: "only_objects (advance_clock routingStep s2) ?s3" by (rule only_objects_roll_state)
  note f1 = only_objects_fields[OF oo1] and f2 = only_objects_fields[OF oo2]
    and f3 = only_objects_fields[OF oo3] and f4 = check_events_fields[OF s4]
    and f6 = only_objects_fields[OF oo46] and f7 = only_objects_fields[OF oo47]
    and f8 = only_objects_fields[OF oo_end]
  have old: "OldRoutingTime s6 = NewRoutingTime s"
    by (simp add: f6 f4 f3 f2 f1)
  have sk: "SkipSteadyState s6" using skip by (simp add: f6 f4 f3 f2 f1)
  have tol: "SysFlowTol s6 = SysFlowTol s" by (simp add: f6 f4 f3 f2 f1)
  have test: "flag \<longleftrightarrow> \<not> (NewRoutingTime s = 0 \<or> ac > 0 \<or> \<bar>?sfe\<bar> > SysFlowTol s
                          \<or> inflowHasChanged ext s6)"
    using sk by (simp add: flag steady_state_test_def old tol)
  note R = step_closed_quiet
  have 1: "step_calls 0 False s (begin_step ext routingStep s)" by (rule sc_begin_step[OF R])
  have 2: "step_calls ac False (begin_step ext routingStep s) s2"
    using p unfolding ps by (rule change_settings_calls)
  have 3: "step_calls 0 False s2 (advance_clock routingStep s2)"
    by (rule step_calls_same_trace) simp
  have 4: "step_calls 0 False (advance_clock routingStep s2) ?s3" by (rule sc_roll_state[OF R])
  have 5: "step_calls 0 False ?s3 s4" using f4(1) by (rule step_calls_same_trace)
  from step_calls_trans[OF 1 2] have 12: "step_calls ac False s s2" by simp
  from step_calls_trans[OF 12 quiet_trans[OF 3 quiet_trans[OF 4 5]]]
  have 15: "step_calls ac False s s4" by simp
  from step_calls_trans[OF 15 c47]
  have "step_calls ac (\<not> flag \<and> 0 < Nobjects_LINK (old_hyd_state ext routingStep s6)) s s7"
    by simp
  then obtain y where y: "trace s7 = trace s @ y" "length (filter is_link_setSetting y) = ac"
    "list_ex is_flowrout_execute y
       = (\<not> flag \<and> 0 < Nobjects_LINK (old_hyd_state ext routingStep s6))"
    unfolding step_calls_def by blast
  from end_step_calls[of ext routingStep stepCount flag s7] obtain e where
    e: "trace s' = trace s7 @ e" "list_all quiet_call e"
    and stats: "RptFlags_flowStats s7 \<and> 0 < Nobjects_LINK s7
        \<longrightarrow> e \<noteq> [] \<and> last e = Stats_updateFlowStats routingStep
               (getDateTime ext (NewRoutingTime s7)) stepCount flag"
    unfolding s' qs by auto
  note ne = quiet_calls_not[OF e(2)]
  have flags: "RptFlags_flowStats s7 = RptFlags_flowStats s"
    by (simp add: f7 f4 f3 f2 f1)
  have links: "Nobjects_LINK s' = Nobjects_LINK s7" unfolding s' qs by simp
  have time: "NewRoutingTime s' = NewRoutingTime s7" by (simp add: f8)
  have a: "trace s' = trace s @ (y @ e)" using y(1) e(1) by simp
  have b: "ac = length (filter is_link_setSetting (y @ e))" using y(2) ne by simp
  have c: "list_ex is_flowrout_execute (y @ e)
             \<longleftrightarrow> \<not> flag \<and> 0 < Nobjects_LINK (old_hyd_state ext routingStep s6)"
    using y(3) ne by (auto simp: list_ex_iff)
  have d: "RptFlags_flowStats s \<and> 0 < Nobjects_LINK s'
        \<longrightarrow> (\<exists>n. last (y @ e) = Stats_updateFlowStats routingStep
                (getDateTime ext (NewRoutingTime s')) n flag)"
    using stats by (auto simp: flags links time)
  from p ps s4 s5 s6 a b test c d show ?thesis by blast
qed

lemmas eval_route =
  route_step_def set_node_losses_def upd_Node_def add_newLatFlow_def
  aggregate_inflows_def addExternalInflows_def addExternalInflows_node_def
  addDryWeatherInflows_def addDryWeatherInflows_node_def
  addWetWeatherInflows_def addGroundwaterInflows_def addLidDrainInflows_def
  addRdiiInflows_def addIfaceInflows_def
  steady_state_test_def inflowHasChanged_def
  route_flows_def removeStorageLosses_def removeConduitLosses_def
  removeOutflows_def removeOutflows_node_def route_outfall_def
  report_system_outflow_def report_lateral_loss_def change_setting_def
  old_hyd_state_def

lemmas eval_flow0 =
  sim_flow0_def env_flow_def sim0_def env0_def node0_def link0_def eval_step eval_route

lemmas eval_flow = sim_flow1_def after_step_def eval_flow0

lemma sim_flow1_eq:
  "routing_execute env_flow 0 30 sim_flow0 = Inr sim_flow1"
  "ErrorCode (obj sim_flow0) = 0" "SkipSteadyState sim_flow0"
  "\<not> BetweenEvents sim_flow1" "NewRoutingTime sim_flow0 = 0"
  "RptFlags_flowStats sim_flow0" "0 < Nobjects_LINK sim_flow1"
  "getDateTime env_flow (NewRoutingTime sim_flow1) = 30"
  by (simp_all add: eval_flow)

lemma sim_flow2_eq:
  "routing_execute env_flow 0 30 sim_flow1 = Inr sim_flow2"
  "ErrorCode (obj sim_flow1) = 0" "SkipSteadyState sim_flow1"
  "\<not> BetweenEvents sim_flow2" "NewRoutingTime sim_flow1 = 30000"
  "RptFlags_flowStats sim_flow1" "0 < Nobjects_LINK sim_flow2"
  "getDateTime env_flow (NewRoutingTime sim_flow2) = 60"
  "SysFlowTol sim_flow1 = 5 / 100"
  by (simp_all add: sim_flow2_def eval_flow)

lemma sim_flow_phases0:
  "\<exists>t2 t4 t5 t6.
      change_settings env_flow 30 (getDateTime env_flow (NewRoutingTime sim_flow0))
          (begin_step env_flow 30 sim_flow0) = Inr (0, t2)
    \<and> check_events (getDateTime env_flow (NewRoutingTime sim_flow0))
          (snd (roll_state env_flow (advance_clock 30 t2))) = Inr t4
    \<and> forE [0..<Nobjects_NODE t4] (set_node_losses env_flow 30) t4 = Inr t5
    \<and> aggregate_inflows env_flow (getDateTime env_flow (NewRoutingTime sim_flow0)) t5 = Inr t6
    \<and> 0 < Nobjects_LINK (old_hyd_state env_flow 30 t6)"
  by (simp add: eval_flow0)

lemma sim_flow_phases1:
  "\<exists>t2 t4 t5 t6.
      change_settings env_flow 30 (getDateTime env_flow (NewRoutingTime sim_flow1))
          (begin_step env_flow 30 sim_flow1) = Inr (0, t2)
    \<and> check_events (getDateTime env_flow (NewRoutingTime sim_flow1))
          (snd (roll_state env_flow (advance_clock 30 t2))) = Inr t4
    \<and> forE [0..<Nobjects_NODE t4] (set_node_losses env_flow 30) t4 = Inr t5
    \<and> aggregate_inflows env_flow (getDateTime env_flow (NewRoutingTime sim_flow1)) t5 = Inr t6
    \<and> massbal_getStepFlowError env_flow (advance_clock 30 t2) = 0
    \<and> \<not> inflowHasChanged env_flow t6"
  by (simp add: eval_flow)

theorem routing_execute_steady_state_witness:
  "ErrorCode (obj sim_flow0) = 0 \<and> SkipSteadyState sim_flow0
   \<and> routing_execute env_flow 0 30 sim_flow0 = Inr sim_flow1 \<and> \<not> BetweenEvents sim_flow1
   \<and> ErrorCode (obj sim_flow1) = 0 \<and> SkipSteadyState sim_flow1
   \<and> routing_execute env_flow 0 30 sim_flow1 = Inr sim_flow2 \<and> \<not> BetweenEvents sim_flow2
   \<and> (\<exists>x n. trace sim_flow1 = trace sim_flow0 @ x \<and> list_ex is_flowrout_execute x
          \<and> last x = Stats_updateFlowStats 30 30 n False)
   \<and> (\<exists>x n. trace sim_flow2 = trace sim_flow1 @ x \<and> \<not> list_ex is_flowrout_execute x
          \<and> last x = Stats_updateFlowStats 30 60 n True)"
proof -
  have first: "\<exists>x n. trace sim_flow1 = trace sim_flow0 @ x \<and> list_ex is_flowrout_execute x
          \<and> last x = Stats_updateFlowStats 30 30 n False"
  proof -
    from routing_execute_steady_state[OF sim_flow1_eq(2) sim_flow1_eq(3) sim_flow1_eq(1)
        sim_flow1_eq(4)]
    obtain ac s2 s4 s5 s6 fl x where
      1: "change_settings env_flow 30 (getDateTime env_flow (NewRoutingTime sim_flow0))
            (begin_step env_flow 30 sim_flow0) = Inr (ac, s2)"
      and 2: "check_events (getDateTime env_flow (NewRoutingTime sim_flow0))
            (snd (roll_state env_flow (advance_clock 30 s2))) = Inr s4"
      and 3: "forE [0..<Nobjects_NODE s4] (set_node_losses env_flow 30) s4 = Inr s5"
      and 4: "aggregate_inflows env_flow (getDateTime env_flow (NewRoutingTime sim_flow0)) s5 = Inr s6"
      and tr: "trace sim_flow1 = trace sim_flow0 @ x"
      and test: "fl \<longleftrightarrow> \<not> (NewRoutingTime sim_flow0 = 0 \<or> ac > 0
                  \<or> \<bar>massbal_getStepFlowError env_flow (advance_clock 30 s2)\<bar> > SysFlowTol sim_flow0
                  \<or> inflowHasChanged env_flow s6)"
      and solver: "list_ex is_flowrout_execute x
                   \<longleftrightarrow> \<not> fl \<and> 0 < Nobjects_LINK (old_hyd_state env_flow 30 s6)"
      and stats: "RptFlags_flowStats sim_flow0 \<and> 0 < Nobjects_LINK sim_flow1
          \<longrightarrow> (\<exists>n. last x = Stats_updateFlowStats 30
                  (getDateTime env_flow (NewRoutingTime sim_flow1)) n fl)"
      by blast
    from sim_flow_phases0 obtain t2 t4 t5 t6 where
      t1: "change_settings env_flow 30 (getDateTime env_flow (NewRoutingTime sim_flow0))
            (begin_step env_flow 30 sim_flow0) = Inr (0, t2)"
      and t2: "check_events (getDateTime env_flow (NewRoutingTime sim_flow0))
            (snd (roll_state env_flow (advance_clock 30 t2))) = Inr t4"
      and t3: "forE [0..<Nobjects_NODE t4] (set_node_losses env_flow 30) t4 = Inr t5"
      and t4: "aggregate_inflows env_flow (getDateTime env_flow (NewRoutingTime sim_flow0)) t5 = Inr t6"
      and links: "0 < Nobjects_LINK (old_hyd_state env_flow 30 t6)"
      by blast
    from 1 t1 have s2: "s2 = t2" by simp
    from 2 t2 s2 have s4: "s4 = t4" by simp
    from 3 t3 s4 have s5: "s5 = t5" by simp
    from 4 t4 s5 have s6: "s6 = t6" by simp
    from test have fl: "\<not> fl" by (simp add: sim_flow1_eq(5))
    with solver links s6 have "list_ex is_flowrout_execute x" by simp
    moreover from stats fl sim_flow1_eq(6) sim_flow1_eq(7) sim_flow1_eq(8)
    obtain n where "last x = Stats_updateFlowStats 30 30 n False" by auto
    ultimately show ?thesis using tr by blast
  qed
  have second: "\<exists>x n. trace sim_flow2 = trace sim_flow1 @ x \<and> \<not> list_ex is_flowrout_execute x
          \<and> last x = Stats_updateFlowStats 30 60 n True"
  proof -
    from routing_execute_steady_state[OF sim_flow2_eq(2) sim_flow2_eq(3) sim_flow2_eq(1)
        sim_flow2_eq(4)]
    obtain ac s2 s4 s5 s6 fl x where
      1: "change_settings env_flow 30 (getDateTime env_flow (NewRoutingTime sim_flow1))
            (begin_step env_flow 30 sim_flow1) = Inr (ac, s2)"
      and 2: "check_events (getDateTime env_flow (NewRoutingTime sim_flow1))
            (snd (roll_state env_flow (advance_clock 30 s2))) = Inr s4"
      and 3: "forE [0..<Nobjects_NODE s4] (set_node_losses env_flow 30) s4 = Inr s5"
      and 4: "aggregate_inflows env_flow (getDateTime env_flow (NewRoutingTime sim_flow1)) s5 = Inr s6"
      and tr: "trace sim_flow2 = trace sim_flow1 @ x"
      and test: "fl \<longleftrightarrow> \<not> (NewRoutingTime sim_flow1 = 0 \<or> ac > 0
                  \<or> \<bar>massbal_getStepFlowError env_flow (advance_clock 30 s2)\<bar> > SysFlowTol sim_flow1
                  \<or> inflowHasChanged env_flow s6)"
      and solver: "list_ex is_flowrout_execute x
                   \<longleftrightarrow> \<not> fl \<and> 0 < Nobjects_LINK (old_hyd_state env_flow 30 s6)"
      and stats: "RptFlags_flowStats sim_flow1 \<and> 0 < Nobjects_LINK sim_flow2
          \<longrightarrow> (\<exists>n. last x = Stats_updateFlowStats 30
                  (getDateTime env_flow (NewRoutingTime sim_flow2)) n fl)"
      by blast
    from sim_flow_phases1 obtain t2 t4 t5 t6 where
      t1: "change_settings env_flow 30 (getDateTime env_flow (NewRoutingTime sim_flow1))
            (begin_step env_flow 30 sim_flow1) = Inr (0, t2)"
      and t2: "check_events (getDateTime env_flow (NewRoutingTime sim_flow1))
            (snd (roll_state env_flow (advance_clock 30 t2))) = Inr t4"
      and t3: "forE [0..<Nobjects_NODE t4] (set_node_losses env_flow 30) t4 = Inr t5"
      and t4: "aggregate_inflows env_flow (getDateTime env_flow (NewRoutingTime sim_flow1)) t5 = Inr t6"
      and err: "massbal_getStepFlowError env_flow (advance_clock 30 t2) = 0"
      and same: "\<not> inflowHasChanged env_flow t6"
      by blast
    from 1 t1 have ac: "ac = 0" and s2: "s2 = t2" by simp_all
    from 2 t2 s2 have s4: "s4 = t4" by simp
    from 3 t3 s4 have s5: "s5 = t5" by simp
    from 4 t4 s5 have s6: "s6 = t6" by simp
    have fl: "fl"
      unfolding test by (simp add: ac s2 s6 err same sim_flow2_eq(5) sim_flow2_eq(9))
    with solver have "\<not> list_ex is_flowrout_execute x" by simp
    moreover from stats fl sim_flow2_eq(6) sim_flow2_eq(7) sim_flow2_eq(8)
    obtain n where "last x = Stats_updateFlowStats 30 60 n True" by auto
    ultimately show ?thesis using tr by blast
  qed
  from first second sim_flow1_eq(1-4) sim_flow2_eq(1-4) show ?thesis by simp
qed

end
